theory Spec2Isabelle
  imports Main "HOL-Library.Multiset"
begin

section \<open>Card model (lib/models/Card.ts)\<close>

datatype Suit = Hearts | Diamonds | Clubs | Spades

datatype Rank = R2 | R3 | R4 | R5 | R6 | R7 | R8 | R9 | R10 | RJ | RQ | RK | RA

text \<open>The interface \<open>Card\<close>. The field \<open>id\<close> of the source is \<open>card_id\<close> here, since
  \<open>id\<close> is the identity function of HOL.\<close>

record Card =
  card_id :: string
  suit :: Suit
  rank :: Rank

text \<open>\<open>createCard\<close>; the random suffix of the id is the parameter \<open>rnd\<close>.\<close>

fun suitName :: "Suit \<Rightarrow> string" where
  "suitName Hearts = ''Hearts''"
| "suitName Diamonds = ''Diamonds''"
| "suitName Clubs = ''Clubs''"
| "suitName Spades = ''Spades''"

fun rankName :: "Rank \<Rightarrow> string" where
  "rankName R2 = ''2''"
| "rankName R3 = ''3''"
| "rankName R4 = ''4''"
| "rankName R5 = ''5''"
| "rankName R6 = ''6''"
| "rankName R7 = ''7''"
| "rankName R8 = ''8''"
| "rankName R9 = ''9''"
| "rankName R10 = ''10''"
| "rankName RJ = ''J''"
| "rankName RQ = ''Q''"
| "rankName RK = ''K''"
| "rankName RA = ''A''"

definition createCard :: "Suit \<Rightarrow> Rank \<Rightarrow> string \<Rightarrow> Card" where
  "createCard s r rnd = \<lparr>card_id = suitName s @ ''-'' @ rankName r @ ''-'' @ rnd, suit = s, rank = r\<rparr>"

fun rankToValue :: "Rank \<Rightarrow> int" where
  "rankToValue R2 = 2"
| "rankToValue R3 = 3"
| "rankToValue R4 = 4"
| "rankToValue R5 = 5"
| "rankToValue R6 = 6"
| "rankToValue R7 = 7"
| "rankToValue R8 = 8"
| "rankToValue R9 = 9"
| "rankToValue R10 = 10"
| "rankToValue RJ = 11"
| "rankToValue RQ = 12"
| "rankToValue RK = 13"
| "rankToValue RA = 14"

definition rankToLowValue :: "Rank \<Rightarrow> int" where
  "rankToLowValue r = (if r = RA then 1 else rankToValue r)"

section \<open>Hand types (lib/poker/types.ts)\<close>

datatype HandRank =
  HighCard | OnePair | TwoPair | ThreeOfAKind | Straight | Flush
  | FullHouse | FourOfAKind | StraightFlush | RoyalFlush

text \<open>The numeric value of the enum, which \<open>findBestHand\<close> compares with its greater-than operator.\<close>

fun handRankValue :: "HandRank \<Rightarrow> nat" where
  "handRankValue HighCard = 0"
| "handRankValue OnePair = 1"
| "handRankValue TwoPair = 2"
| "handRankValue ThreeOfAKind = 3"
| "handRankValue Straight = 4"
| "handRankValue Flush = 5"
| "handRankValue FullHouse = 6"
| "handRankValue FourOfAKind = 7"
| "handRankValue StraightFlush = 8"
| "handRankValue RoyalFlush = 9"

record HandEvaluation =
  bestHighHand :: "Card list"
  bestHighRank :: HandRank
  bestLowHand :: "Card list option"

section \<open>The JavaScript values the evaluator computes with\<close>

text \<open>What the source can throw: a \<open>TypeError\<close> (\<open>reduce\<close> of an empty array with no
  initial value, a property read on \<open>undefined\<close>) and the \<open>Error\<close> of \<open>getRepeatedRank\<close>,
  ``No rank with count N found''.\<close>

datatype error = TypeError | NoRankWithCount nat

text \<open>A number as the comparisons of the source see it: an array read out of range is
  \<open>undefined\<close>, \<open>Math.max()\<close> of no arguments is \<open>-Infinity\<close>. A comparison with
  \<open>undefined\<close> is false in both directions.\<close>

datatype jsnum = Undefined | NegInfinity | Num int

fun js_lt :: "jsnum \<Rightarrow> jsnum \<Rightarrow> bool" where
  "js_lt (Num a) (Num b) = (a < b)"
| "js_lt NegInfinity (Num b) = True"
| "js_lt _ _ = False"

definition js_gt :: "jsnum \<Rightarrow> jsnum \<Rightarrow> bool" where
  "js_gt a b = js_lt b a"

definition at :: "int list \<Rightarrow> nat \<Rightarrow> jsnum" where
  "at xs i = (if i < length xs then Num (xs ! i) else Undefined)"

definition mathMax :: "int list \<Rightarrow> jsnum" where
  "mathMax xs = (case xs of [] \<Rightarrow> NegInfinity | x # ys \<Rightarrow> Num (fold max ys x))"

text \<open>\<open>rankToValue\<close> applied to \<open>undefined\<close> (no case of its switch matches).\<close>

definition rankToValueOpt :: "Rank option \<Rightarrow> jsnum" where
  "rankToValueOpt r = (case r of None \<Rightarrow> Undefined | Some x \<Rightarrow> Num (rankToValue x))"

text \<open>\<open>xs.sort((a, b) => b - a)\<close> on numbers.\<close>

definition sortDesc :: "int list \<Rightarrow> int list" where
  "sortDesc xs = rev (sort xs)"

section \<open>lib/poker/HandEvaluator.ts\<close>

subsection \<open>combinations\<close>

function combinations :: "'a list \<Rightarrow> int \<Rightarrow> 'a list list" where
  "combinations items k =
    (if k \<le> 0 then [[]]
     else if k > int (length items) then []
     else if k = int (length items) then [items]
     else concat (map (\<lambda>i. map (\<lambda>subcombo. (items ! i) # subcombo)
                                 (combinations (drop (Suc i) items) (k - 1)))
                      [0 ..< nat (int (length items) - k + 1)]))"
  by pat_completeness auto
termination
  by (relation "measure (\<lambda>(items, k). length items)") auto

declare combinations.simps [simp del]

subsection \<open>Low hands\<close>

definition isQualifyingLow :: "Card list \<Rightarrow> bool" where
  "isQualifyingLow fiveCards =
    (let lowCards = filter (\<lambda>card. rankToLowValue (rank card) \<le> 8) fiveCards in
     if length lowCards \<noteq> 5 then False
     else card (set (map rank fiveCards)) = 5)"

text \<open>The loop \<open>for (let i = 0; i < 5; i++)\<close> of \<open>compareLowHands\<close>, from index \<open>i\<close> on.\<close>

function compareLowLoop :: "int list \<Rightarrow> int list \<Rightarrow> nat \<Rightarrow> int" where
  "compareLowLoop values1 values2 i =
    (if i < 5 then
       (if js_lt (at values1 i) (at values2 i) then -1
        else if js_gt (at values1 i) (at values2 i) then 1
        else compareLowLoop values1 values2 (Suc i))
     else 0)"
  by pat_completeness auto
termination
  by (relation "measure (\<lambda>(v1, v2, i). 5 - i)") auto

declare compareLowLoop.simps [simp del]

definition compareLowHands :: "Card list \<Rightarrow> Card list \<Rightarrow> int" where
  "compareLowHands hand1 hand2 =
    (let values1 = sortDesc (map (\<lambda>card. rankToLowValue (rank card)) hand1);
         values2 = sortDesc (map (\<lambda>card. rankToLowValue (rank card)) hand2)
     in compareLowLoop values1 values2 0)"

subsection \<open>Classification\<close>

text \<open>The loop of \<open>checkStraight\<close> over neighbouring values; with fewer than two values
  it has nothing to check.\<close>

fun isConsecutive :: "int list \<Rightarrow> bool" where
  "isConsecutive (a # b # vs) = (if b - a \<noteq> 1 then False else isConsecutive (b # vs))"
| "isConsecutive vs = True"

definition checkStraight :: "Rank list \<Rightarrow> bool" where
  "checkStraight ranks =
    (let values = sort (map rankToValue ranks) in
     if isConsecutive values then True
     else if 14 \<in> set values then
       (let wheelValues = sort (map (\<lambda>v. if v = 14 then 1 else v) values) in
        if isConsecutive wheelValues \<and> wheelValues = [1, 2, 3, 4, 5] then True else False)
     else False)"

definition isRoyalFlush :: "Rank list \<Rightarrow> bool" where
  "isRoyalFlush ranks =
    (if card (set ranks) \<noteq> 5 then False
     else list_all (\<lambda>r. r \<in> set ranks) [RA, RK, RQ, RJ, R10])"

text \<open>The object \<open>rankCounts\<close>, as the association list of its properties in the order of
  their creation. \<open>Object.entries\<close> and \<open>Object.values\<close> enumerate the integer-like keys
  (\<open>'2'\<close> to \<open>'10'\<close>) first, in ascending numeric order, then the other keys (\<open>'J'\<close>,
  \<open>'Q'\<close>, \<open>'K'\<close>, \<open>'A'\<close>) in the order of their creation.\<close>

fun increment :: "Rank \<Rightarrow> (Rank \<times> nat) list \<Rightarrow> (Rank \<times> nat) list" where
  "increment r [] = [(r, 1)]"
| "increment r ((k, c) # kvs) =
    (if k = r then (k, c + 1) # kvs else (k, c) # increment r kvs)"

definition countRanks :: "Rank list \<Rightarrow> (Rank \<times> nat) list" where
  "countRanks ranks = fold increment ranks []"

definition isIntegerKey :: "Rank \<Rightarrow> bool" where
  "isIntegerKey r = (r \<notin> {RJ, RQ, RK, RA})"

definition objectEntries :: "(Rank \<times> nat) list \<Rightarrow> (Rank \<times> nat) list" where
  "objectEntries obj =
     sort_key (\<lambda>kv. rankToValue (fst kv)) (filter (\<lambda>kv. isIntegerKey (fst kv)) obj)
     @ filter (\<lambda>kv. \<not> isIntegerKey (fst kv)) obj"

definition evaluateHand :: "Card list \<Rightarrow> HandRank" where
  "evaluateHand cards =
    (let ranks = map rank cards;
         suits = map suit cards;
         isFlush = (card (set suits) = 1);
         isStraight = checkStraight ranks;
         rankCounts = countRanks ranks;
         counts = rev (sort (map snd (objectEntries rankCounts)))
     in if isFlush \<and> isStraight \<and> isRoyalFlush ranks then RoyalFlush
        else if isFlush \<and> isStraight then StraightFlush
        else if counts = [4, 1] then FourOfAKind
        else if counts = [3, 2] then FullHouse
        else if isFlush then Flush
        else if isStraight then Straight
        else if counts = [3, 1, 1] then ThreeOfAKind
        else if counts = [2, 2, 1] then TwoPair
        else if counts = [2, 1, 1, 1] then OnePair
        else HighCard)"

subsection \<open>Helpers of the comparison\<close>

text \<open>\<open>cards.reduce(...)\<close> with no initial value: the first card starts as \<open>max\<close>; on an
  empty array it throws.\<close>

definition getHighCard :: "Card list \<Rightarrow> error + Card" where
  "getHighCard cards =
    (case cards of
       [] \<Rightarrow> Inl TypeError
     | c # cs \<Rightarrow>
         Inr (fold (\<lambda>card mx. if rankToValue (rank card) > rankToValue (rank mx) then card else mx)
                cs c))"

text \<open>\<open>cards.find(...)!\<close> may be \<open>undefined\<close>; every caller reads its \<open>rank\<close> at once,
  which then throws.\<close>

definition getStraightHighCard :: "Card list \<Rightarrow> error + Card" where
  "getStraightHighCard cards =
    (let ranks = map rank cards;
         values = sort (map rankToValue ranks)
     in if values = [2, 3, 4, 5, 14] then
          (case find (\<lambda>card. rank card = R5) cards of
             Some c \<Rightarrow> Inr c
           | None \<Rightarrow> Inl TypeError)
        else getHighCard cards)"

definition getRepeatedRank :: "Card list \<Rightarrow> nat \<Rightarrow> error + Rank" where
  "getRepeatedRank cards n =
    (let rankCounts = countRanks (map rank cards) in
     case find (\<lambda>kv. snd kv = n) (objectEntries rankCounts) of
       Some kv \<Rightarrow> Inr (fst kv)
     | None \<Rightarrow> Inl (NoRankWithCount n))"

text \<open>\<open>pairs[0]\<close> and \<open>pairs[1]\<close> are \<open>undefined\<close> (\<open>None\<close>) where the array is shorter.\<close>

definition getTwoPairRanks :: "Card list \<Rightarrow> Rank option \<times> Rank option" where
  "getTwoPairRanks cards =
    (let rankCounts = countRanks (map rank cards);
         pairs = sort_key (\<lambda>r. - rankToValue r)
                   (map fst (filter (\<lambda>kv. snd kv = 2) (objectEntries rankCounts)))
     in (if 0 < length pairs then Some (pairs ! 0) else None,
         if 1 < length pairs then Some (pairs ! 1) else None))"

text \<open>The loops \<open>for (let i = 0; i < n; i++)\<close> of \<open>compareHighHands\<close>, from index \<open>i\<close> on:
  \<open>n\<close> is 5 for Flush and HighCard, \<open>kickers1.length\<close> for ThreeOfAKind and OnePair.\<close>

function compareHighLoop :: "int list \<Rightarrow> int list \<Rightarrow> nat \<Rightarrow> nat \<Rightarrow> int" where
  "compareHighLoop values1 values2 n i =
    (if i < n then
       (if js_gt (at values1 i) (at values2 i) then -1
        else if js_lt (at values1 i) (at values2 i) then 1
        else compareHighLoop values1 values2 n (Suc i))
     else 0)"
  by pat_completeness auto
termination
  by (relation "measure (\<lambda>(v1, v2, n, i). n - i)") auto

declare compareHighLoop.simps [simp del]

subsection \<open>compareHighHands, one definition for each block of its switch\<close>

definition compareStraight :: "Card list \<Rightarrow> Card list \<Rightarrow> error + int" where
  "compareStraight hand1 hand2 =
    (case getStraightHighCard hand1 of Inl e \<Rightarrow> Inl e | Inr high1 \<Rightarrow>
     (case getStraightHighCard hand2 of Inl e \<Rightarrow> Inl e | Inr high2 \<Rightarrow>
       (let val1 = rankToValue (rank high1);
            val2 = rankToValue (rank high2)
        in if val1 > val2 then Inr (-1)
           else if val1 < val2 then Inr 1
           else Inr 0)))"

definition compareFourOfAKind :: "Card list \<Rightarrow> Card list \<Rightarrow> error + int" where
  "compareFourOfAKind hand1 hand2 =
    (case getRepeatedRank hand1 4 of Inl e \<Rightarrow> Inl e | Inr quad1 \<Rightarrow>
     (case getRepeatedRank hand2 4 of Inl e \<Rightarrow> Inl e | Inr quad2 \<Rightarrow>
       (let val1 = rankToValue quad1;
            val2 = rankToValue quad2
        in if val1 > val2 then Inr (-1)
           else if val1 < val2 then Inr 1
           else
            (let kicker1 = mathMax (map (\<lambda>c. rankToValue (rank c))
                                        (filter (\<lambda>c. rank c \<noteq> quad1) hand1));
                 kicker2 = mathMax (map (\<lambda>c. rankToValue (rank c))
                                        (filter (\<lambda>c. rank c \<noteq> quad2) hand2))
             in if js_gt kicker1 kicker2 then Inr (-1)
                else if js_lt kicker1 kicker2 then Inr 1
                else Inr 0))))"

definition compareFullHouse :: "Card list \<Rightarrow> Card list \<Rightarrow> error + int" where
  "compareFullHouse hand1 hand2 =
    (case getRepeatedRank hand1 3 of Inl e \<Rightarrow> Inl e | Inr trip1 \<Rightarrow>
     (case getRepeatedRank hand2 3 of Inl e \<Rightarrow> Inl e | Inr trip2 \<Rightarrow>
       (let val1 = rankToValue trip1;
            val2 = rankToValue trip2
        in if val1 > val2 then Inr (-1)
           else if val1 < val2 then Inr 1
           else
            (case getRepeatedRank hand1 2 of Inl e \<Rightarrow> Inl e | Inr pair1 \<Rightarrow>
             (case getRepeatedRank hand2 2 of Inl e \<Rightarrow> Inl e | Inr pair2 \<Rightarrow>
               (let pairVal1 = rankToValue pair1;
                    pairVal2 = rankToValue pair2
                in if pairVal1 > pairVal2 then Inr (-1)
                   else if pairVal1 < pairVal2 then Inr 1
                   else Inr 0))))))"

definition compareAllCards :: "Card list \<Rightarrow> Card list \<Rightarrow> error + int" where
  "compareAllCards hand1 hand2 =
    (let values1 = sortDesc (map (\<lambda>c. rankToValue (rank c)) hand1);
         values2 = sortDesc (map (\<lambda>c. rankToValue (rank c)) hand2)
     in Inr (compareHighLoop values1 values2 5 0))"

definition compareThreeOfAKind :: "Card list \<Rightarrow> Card list \<Rightarrow> error + int" where
  "compareThreeOfAKind hand1 hand2 =
    (case getRepeatedRank hand1 3 of Inl e \<Rightarrow> Inl e | Inr trip1 \<Rightarrow>
     (case getRepeatedRank hand2 3 of Inl e \<Rightarrow> Inl e | Inr trip2 \<Rightarrow>
       (let val1 = rankToValue trip1;
            val2 = rankToValue trip2
        in if val1 > val2 then Inr (-1)
           else if val1 < val2 then Inr 1
           else
            (let kickers1 = sortDesc (map (\<lambda>c. rankToValue (rank c))
                                          (filter (\<lambda>c. rank c \<noteq> trip1) hand1));
                 kickers2 = sortDesc (map (\<lambda>c. rankToValue (rank c))
                                          (filter (\<lambda>c. rank c \<noteq> trip2) hand2))
             in Inr (compareHighLoop kickers1 kickers2 (length kickers1) 0)))))"

definition compareTwoPair :: "Card list \<Rightarrow> Card list \<Rightarrow> error + int" where
  "compareTwoPair hand1 hand2 =
    (let pairs1 = getTwoPairRanks hand1;
         pairs2 = getTwoPairRanks hand2;
         highVal1 = rankToValueOpt (fst pairs1);
         highVal2 = rankToValueOpt (fst pairs2)
     in if js_gt highVal1 highVal2 then Inr (-1)
        else if js_lt highVal1 highVal2 then Inr 1
        else
         (let lowVal1 = rankToValueOpt (snd pairs1);
              lowVal2 = rankToValueOpt (snd pairs2)
          in if js_gt lowVal1 lowVal2 then Inr (-1)
             else if js_lt lowVal1 lowVal2 then Inr 1
             else
              (let kicker1 = mathMax (map (\<lambda>c. rankToValue (rank c))
                               (filter (\<lambda>c. Some (rank c) \<noteq> fst pairs1 \<and> Some (rank c) \<noteq> snd pairs1)
                                  hand1));
                   kicker2 = mathMax (map (\<lambda>c. rankToValue (rank c))
                               (filter (\<lambda>c. Some (rank c) \<noteq> fst pairs2 \<and> Some (rank c) \<noteq> snd pairs2)
                                  hand2))
               in if js_gt kicker1 kicker2 then Inr (-1)
                  else if js_lt kicker1 kicker2 then Inr 1
                  else Inr 0)))"

definition compareOnePair :: "Card list \<Rightarrow> Card list \<Rightarrow> error + int" where
  "compareOnePair hand1 hand2 =
    (case getRepeatedRank hand1 2 of Inl e \<Rightarrow> Inl e | Inr pair1 \<Rightarrow>
     (case getRepeatedRank hand2 2 of Inl e \<Rightarrow> Inl e | Inr pair2 \<Rightarrow>
       (let val1 = rankToValue pair1;
            val2 = rankToValue pair2
        in if val1 > val2 then Inr (-1)
           else if val1 < val2 then Inr 1
           else
            (let kickers1 = sortDesc (map (\<lambda>c. rankToValue (rank c))
                                          (filter (\<lambda>c. rank c \<noteq> pair1) hand1));
                 kickers2 = sortDesc (map (\<lambda>c. rankToValue (rank c))
                                          (filter (\<lambda>c. rank c \<noteq> pair2) hand2))
             in Inr (compareHighLoop kickers1 kickers2 (length kickers1) 0)))))"

fun compareHighHands :: "Card list \<Rightarrow> Card list \<Rightarrow> HandRank \<Rightarrow> error + int" where
  "compareHighHands hand1 hand2 RoyalFlush = Inr 0"
| "compareHighHands hand1 hand2 StraightFlush = compareStraight hand1 hand2"
| "compareHighHands hand1 hand2 Straight = compareStraight hand1 hand2"
| "compareHighHands hand1 hand2 FourOfAKind = compareFourOfAKind hand1 hand2"
| "compareHighHands hand1 hand2 FullHouse = compareFullHouse hand1 hand2"
| "compareHighHands hand1 hand2 Flush = compareAllCards hand1 hand2"
| "compareHighHands hand1 hand2 HighCard = compareAllCards hand1 hand2"
| "compareHighHands hand1 hand2 ThreeOfAKind = compareThreeOfAKind hand1 hand2"
| "compareHighHands hand1 hand2 TwoPair = compareTwoPair hand1 hand2"
| "compareHighHands hand1 hand2 OnePair = compareOnePair hand1 hand2"

subsection \<open>findBestHand\<close>

definition allCombinations :: "Card list \<Rightarrow> Card list \<Rightarrow> int \<Rightarrow> (Card list \<times> Card list) list" where
  "allCombinations holeCards communityCards cardCount =
    (if cardCount = 2 then
       List.product (combinations holeCards 1) (combinations communityCards 4)
       @ List.product (combinations holeCards 2) (combinations communityCards 3)
     else List.product (combinations holeCards 2) (combinations communityCards 3))"

text \<open>The two halves of the body of the loop over \<open>allCombinations\<close>: the running best
  high hand, then the running best low hand.\<close>

definition updateHigh :: "Card list \<Rightarrow> HandEvaluation \<Rightarrow> error + HandEvaluation" where
  "updateHigh fiveCardHand best =
    (let highRank = evaluateHand fiveCardHand in
     if length (bestHighHand best) = 0 then
       Inr (best\<lparr>bestHighHand := fiveCardHand, bestHighRank := highRank\<rparr>)
     else if handRankValue highRank > handRankValue (bestHighRank best) then
       Inr (best\<lparr>bestHighRank := highRank, bestHighHand := fiveCardHand\<rparr>)
     else if highRank = bestHighRank best then
       (case compareHighHands fiveCardHand (bestHighHand best) highRank of
          Inl e \<Rightarrow> Inl e
        | Inr comparison \<Rightarrow>
            if comparison < 0 then Inr (best\<lparr>bestHighHand := fiveCardHand\<rparr>) else Inr best)
     else Inr best)"

definition updateLow :: "Card list \<Rightarrow> HandEvaluation \<Rightarrow> HandEvaluation" where
  "updateLow fiveCardHand best =
    (if isQualifyingLow fiveCardHand then
       (case bestLowHand best of
          None \<Rightarrow> best\<lparr>bestLowHand := Some fiveCardHand\<rparr>
        | Some low \<Rightarrow>
            if compareLowHands fiveCardHand low < 0 then best\<lparr>bestLowHand := Some fiveCardHand\<rparr>
            else best)
     else best)"

fun evaluateAll :: "(Card list \<times> Card list) list \<Rightarrow> HandEvaluation \<Rightarrow> error + HandEvaluation" where
  "evaluateAll [] best = Inr best"
| "evaluateAll ((holeCombo, boardCombo) # rest) best =
    (let fiveCardHand = holeCombo @ boardCombo in
     case updateHigh fiveCardHand best of
       Inl e \<Rightarrow> Inl e
     | Inr best1 \<Rightarrow> evaluateAll rest (updateLow fiveCardHand best1))"

definition findBestHand :: "Card list \<Rightarrow> Card list \<Rightarrow> int \<Rightarrow> error + HandEvaluation" where
  "findBestHand holeCards communityCards cardCount =
    evaluateAll (allCombinations holeCards communityCards cardCount)
      \<lparr>bestHighHand = [], bestHighRank = HighCard, bestLowHand = None\<rparr>"

subsection \<open>getLowHandDescription\<close>

text \<open>\<open>String(n)\<close> of an integer.\<close>

fun digits :: "nat \<Rightarrow> string" where
  "digits n =
    (if n < 10 then [''0123456789'' ! n]
     else digits (n div 10) @ [''0123456789'' ! (n mod 10)])"

declare digits.simps [simp del]

definition numberToString :: "int \<Rightarrow> string" where
  "numberToString v = (if v < 0 then CHR ''-'' # digits (nat (- v)) else digits (nat v))"

definition getLowHandDescription :: "Card list \<Rightarrow> Card list \<Rightarrow> int \<Rightarrow> error + string" where
  "getLowHandDescription hand communityCards cardCount =
    (case findBestHand hand communityCards cardCount of
       Inl e \<Rightarrow> Inl e
     | Inr evaluation \<Rightarrow>
         (case bestLowHand evaluation of
            None \<Rightarrow> Inr ''No low''
          | Some low \<Rightarrow>
              Inr (concat (map numberToString
                     (sortDesc (map (\<lambda>card. rankToLowValue (rank card)) low))))))"

section \<open>Vocabulary of the specification\<close>

text \<open>A FiveCardHand of the specification: exactly five cards, no two with the same suit
  and rank.\<close>

definition wellFormed :: "Card list \<Rightarrow> bool" where
  "wellFormed h = (length h = 5 \<and> distinct (map (\<lambda>c. (suit c, rank c)) h))"

text \<open>Whether the private and community cards can supply a legal split for the rule: with
  \<open>cardCount = 2\<close> one private and four community cards, or two and three; otherwise two
  private and three community cards.\<close>

definition canSupply :: "Card list \<Rightarrow> Card list \<Rightarrow> int \<Rightarrow> bool" where
  "canSupply holeCards communityCards cardCount =
    (if cardCount = 2 then
       (1 \<le> length holeCards \<and> 4 \<le> length communityCards)
       \<or> (2 \<le> length holeCards \<and> 3 \<le> length communityCards)
     else 2 \<le> length holeCards \<and> 3 \<le> length communityCards)"

text \<open>The example of the two-card game: the 2 of clubs and the 7 of diamonds, with the
  3, 4, 5, 6 of spades and the 9 of hearts on the board.\<close>

definition privateC2 :: "Card list" where
  "privateC2 = [createCard Clubs R2 ''p1'', createCard Diamonds R7 ''p2'']"

definition communityC2 :: "Card list" where
  "communityC2 =
    [createCard Spades R3 ''b1'', createCard Spades R4 ''b2'', createCard Spades R5 ''b3'',
     createCard Spades R6 ''b4'', createCard Hearts R9 ''b5'']"

text \<open>The wheel A-2-3-4-5, and the high-card value of a straight as the specification
  states it: 5 for the wheel, the highest value otherwise.\<close>

definition isWheel :: "Card list \<Rightarrow> bool" where
  "isWheel h = (set (map rank h) = {RA, R2, R3, R4, R5})"

definition straightHigh :: "Card list \<Rightarrow> int" where
  "straightHigh h =
    (if isWheel h then 5 else Max (set (map (\<lambda>c. rankToValue (rank c)) h)))"

section \<open>Auxiliary notions of the proofs\<close>

text \<open>The entries of \<open>rankCounts\<close> for a hand, and the array \<open>counts\<close> of
  \<open>evaluateHand\<close>.\<close>

definition entries :: "Card list \<Rightarrow> (Rank \<times> nat) list" where
  "entries h = objectEntries (countRanks (map rank h))"

definition counts :: "Card list \<Rightarrow> nat list" where
  "counts h = rev (sort (map snd (entries h)))"

text \<open>Three-way lexicographic comparison of two lists of values, \<open>-1\<close> where the first
  list is greater at the first difference.\<close>

fun lexcmp :: "int list \<Rightarrow> int list \<Rightarrow> int" where
  "lexcmp (a # as) (b # bs) = (if a > b then -1 else if a < b then 1 else lexcmp as bs)"
| "lexcmp as bs = 0"

text \<open>The values \<open>compareHighHands\<close> looks at in a hand of a given category, in the order
  in which it compares them.\<close>

definition numOf :: "jsnum \<Rightarrow> int" where
  "numOf x = (case x of Num m \<Rightarrow> m | _ \<Rightarrow> 0)"

definition straightValue :: "Card list \<Rightarrow> int" where
  "straightValue h = (case getStraightHighCard h of Inr c \<Rightarrow> rankToValue (rank c) | Inl e \<Rightarrow> 0)"

definition repeatedKey :: "Card list \<Rightarrow> nat \<Rightarrow> int list" where
  "repeatedKey h n =
    (case getRepeatedRank h n of
       Inr r \<Rightarrow> rankToValue r
                # sortDesc (map (\<lambda>c. rankToValue (rank c)) (filter (\<lambda>c. rank c \<noteq> r) h))
     | Inl e \<Rightarrow> [])"

fun tieKey :: "HandRank \<Rightarrow> Card list \<Rightarrow> int list" where
  "tieKey RoyalFlush h = []"
| "tieKey StraightFlush h = [straightValue h]"
| "tieKey Straight h = [straightValue h]"
| "tieKey FourOfAKind h =
    (case getRepeatedRank h 4 of
       Inr q \<Rightarrow> [rankToValue q,
                 numOf (mathMax (map (\<lambda>c. rankToValue (rank c)) (filter (\<lambda>c. rank c \<noteq> q) h)))]
     | Inl e \<Rightarrow> [])"
| "tieKey FullHouse h =
    (case getRepeatedRank h 3 of
       Inr t \<Rightarrow> (case getRepeatedRank h 2 of Inr p \<Rightarrow> [rankToValue t, rankToValue p] | Inl e \<Rightarrow> [])
     | Inl e \<Rightarrow> [])"
| "tieKey Flush h = sortDesc (map (\<lambda>c. rankToValue (rank c)) h)"
| "tieKey HighCard h = sortDesc (map (\<lambda>c. rankToValue (rank c)) h)"
| "tieKey ThreeOfAKind h = repeatedKey h 3"
| "tieKey TwoPair h =
    (case getTwoPairRanks h of
       (Some a, Some b) \<Rightarrow>
          [rankToValue a, rankToValue b,
           numOf (mathMax (map (\<lambda>c. rankToValue (rank c))
                    (filter (\<lambda>c. rank c \<noteq> a \<and> rank c \<noteq> b) h)))]
     | _ \<Rightarrow> [])"
| "tieKey OnePair h = repeatedKey h 2"

fun keyLength :: "HandRank \<Rightarrow> nat" where
  "keyLength RoyalFlush = 0"
| "keyLength StraightFlush = 1"
| "keyLength Straight = 1"
| "keyLength FourOfAKind = 2"
| "keyLength FullHouse = 2"
| "keyLength Flush = 5"
| "keyLength HighCard = 5"
| "keyLength ThreeOfAKind = 3"
| "keyLength TwoPair = 3"
| "keyLength OnePair = 4"

text \<open>What the branch of \<open>compareHighHands\<close> for a category needs of a hand so as not to
  reach an error or an empty list of kickers: every \<open>getRepeatedRank\<close> it calls returns a
  rank, both pairs of \<open>getTwoPairRanks\<close> are defined, and the cards left as kickers in
  the FourOfAKind and TwoPair branches are not empty.\<close>

fun lookupsSucceed :: "HandRank \<Rightarrow> Card list \<Rightarrow> bool" where
  "lookupsSucceed FourOfAKind h =
    (case getRepeatedRank h 4 of
       Inl e \<Rightarrow> False
     | Inr q \<Rightarrow> filter (\<lambda>c. rank c \<noteq> q) h \<noteq> [])"
| "lookupsSucceed FullHouse h = (\<not> isl (getRepeatedRank h 3) \<and> \<not> isl (getRepeatedRank h 2))"
| "lookupsSucceed ThreeOfAKind h = (\<not> isl (getRepeatedRank h 3))"
| "lookupsSucceed OnePair h = (\<not> isl (getRepeatedRank h 2))"
| "lookupsSucceed TwoPair h =
    (case getTwoPairRanks h of
       (Some a, Some b) \<Rightarrow> filter (\<lambda>c. rank c \<noteq> a \<and> rank c \<noteq> b) h \<noteq> []
     | _ \<Rightarrow> False)"
| "lookupsSucceed c h = True"

section \<open>Example hands\<close>

definition handWheel :: "Card list" where
  "handWheel =
    [createCard Spades RA ''w1'', createCard Hearts R2 ''w2'', createCard Clubs R3 ''w3'',
     createCard Diamonds R4 ''w4'', createCard Spades R5 ''w5'']"

definition handSixHigh :: "Card list" where
  "handSixHigh =
    [createCard Clubs R2 ''s1'', createCard Diamonds R3 ''s2'', createCard Hearts R4 ''s3'',
     createCard Spades R5 ''s4'', createCard Clubs R6 ''s5'']"

definition quadAces :: "Card list" where
  "quadAces =
    [createCard Spades RA ''q1'', createCard Hearts RA ''q2'', createCard Diamonds RA ''q3'',
     createCard Clubs RA ''q4'', createCard Spades RK ''q5'']"

definition quadKings :: "Card list" where
  "quadKings =
    [createCard Spades RK ''k1'', createCard Hearts RK ''k2'', createCard Diamonds RK ''k3'',
     createCard Clubs RK ''k4'', createCard Spades RA ''k5'']"

definition pairAcesJack :: "Card list" where
  "pairAcesJack =
    [createCard Spades RA ''a1'', createCard Hearts RA ''a2'', createCard Diamonds RK ''a3'',
     createCard Clubs RQ ''a4'', createCard Spades RJ ''a5'']"

definition pairAcesTen :: "Card list" where
  "pairAcesTen =
    [createCard Diamonds RA ''t1'', createCard Clubs RA ''t2'', createCard Spades RK ''t3'',
     createCard Hearts RQ ''t4'', createCard Diamonds R10 ''t5'']"

definition pairKings :: "Card list" where
  "pairKings =
    [createCard Hearts RK ''g1'', createCard Clubs RK ''g2'', createCard Spades RA ''g3'',
     createCard Diamonds RQ ''g4'', createCard Hearts RJ ''g5'']"

definition pairedSevens :: "Card list" where
  "pairedSevens =
    [createCard Spades R7 ''d1'', createCard Hearts R7 ''d2'', createCard Clubs R3 ''d3'',
     createCard Diamonds R4 ''d4'', createCard Spades R5 ''d5'']"

definition aceToFourNine :: "Card list" where
  "aceToFourNine =
    [createCard Spades RA ''e1'', createCard Hearts R2 ''e2'', createCard Clubs R3 ''e3'',
     createCard Diamonds R4 ''e4'', createCard Spades R9 ''e5'']"

definition kingToNine :: "Card list" where
  "kingToNine =
    [createCard Spades RK ''h1'', createCard Hearts RQ ''h2'', createCard Clubs RJ ''h3'',
     createCard Diamonds R10 ''h4'', createCard Spades R9 ''h5'']"

definition handNineHighSpades :: "Card list" where
  "handNineHighSpades =
    [createCard Spades R5 ''n1'', createCard Spades R6 ''n2'', createCard Spades R7 ''n3'',
     createCard Spades R8 ''n4'', createCard Spades R9 ''n5'']"

text \<open>Two lists that are not well-formed hands: four cards, and five cards of which four
  are the same card.\<close>

definition fourSpades :: "Card list" where
  "fourSpades =
    [createCard Spades RA ''f1'', createCard Spades RK ''f2'', createCard Spades RQ ''f3'',
     createCard Spades RJ ''f4'']"

definition repeatedAce :: "Card list" where
  "repeatedAce =
    [createCard Spades RA ''r1'', createCard Spades RA ''r1'', createCard Spades RA ''r1'',
     createCard Spades RA ''r1'', createCard Spades RK ''r2'']"

text \<open>The cards of the example of the two-card game, dealt again with other ids.\<close>

definition privateC2other :: "Card list" where
  "privateC2other = [createCard Clubs R2 ''u1'', createCard Diamonds R7 ''u2'']"

definition communityC2other :: "Card list" where
  "communityC2other =
    [createCard Spades R3 ''v1'', createCard Spades R4 ''v2'', createCard Spades R5 ''v3'',
     createCard Spades R6 ''v4'', createCard Hearts R9 ''v5'']"

section \<open>The classification as the specification words it\<close>

text \<open>All suits identical; the sorted high values step by one; the wheel as the set of
  values 14, 2, 3, 4, 5; the royal ranks; the counts of the distinct ranks sorted
  descending; and the first-match precedence over them.\<close>

definition specIsFlush :: "Card list \<Rightarrow> bool" where
  "specIsFlush h = (\<forall>c\<in>set h. \<forall>d\<in>set h. suit c = suit d)"

definition stepsByOne :: "int list \<Rightarrow> bool" where
  "stepsByOne vs = (\<forall>i\<in>{0 ..< length vs - 1}. vs ! (i + 1) = vs ! i + 1)"

definition specIsStraight :: "Card list \<Rightarrow> bool" where
  "specIsStraight h =
    (stepsByOne (sort (map (\<lambda>c. rankToValue (rank c)) h))
     \<or> set (map (\<lambda>c. rankToValue (rank c)) h) = {14, 2, 3, 4, 5})"

definition specIsRoyal :: "Card list \<Rightarrow> bool" where
  "specIsRoyal h = (set (map rank h) = {RA, RK, RQ, RJ, R10})"

definition countShape :: "Card list \<Rightarrow> nat list" where
  "countShape h =
    rev (sort (map (\<lambda>r. count_list (map rank h) r) (remdups (map rank h))))"

definition classify :: "Card list \<Rightarrow> HandRank" where
  "classify h =
    (if specIsFlush h \<and> specIsStraight h \<and> specIsRoyal h then RoyalFlush
     else if specIsFlush h \<and> specIsStraight h then StraightFlush
     else if countShape h = [4, 1] then FourOfAKind
     else if countShape h = [3, 2] then FullHouse
     else if specIsFlush h then Flush
     else if specIsStraight h then Straight
     else if countShape h = [3, 1, 1] then ThreeOfAKind
     else if countShape h = [2, 2, 1] then TwoPair
     else if countShape h = [2, 1, 1, 1] then OnePair
     else HighCard)"

section \<open>Cards by value\<close>

text \<open>The suit and rank of a card, without its id; an Evaluation by value, as the category
  with the suits and ranks of the best high hand and of the best low hand, in sequence and
  as multisets.\<close>

definition face :: "Card \<Rightarrow> Suit \<times> Rank" where
  "face c = (suit c, rank c)"

definition evalFaces ::
  "HandEvaluation \<Rightarrow> HandRank \<times> (Suit \<times> Rank) list \<times> (Suit \<times> Rank) list option" where
  "evalFaces e =
    (bestHighRank e, map face (bestHighHand e), map_option (map face) (bestLowHand e))"

definition evalFaceMultisets ::
  "HandEvaluation \<Rightarrow> HandRank \<times> (Suit \<times> Rank) multiset \<times> (Suit \<times> Rank) multiset option" where
  "evalFaceMultisets e =
    (bestHighRank e, mset (map face (bestHighHand e)),
     map_option (\<lambda>h. mset (map face h)) (bestLowHand e))"

text \<open>A card and an Evaluation with the ids erased, for the proofs.\<close>

definition stripId :: "Card \<Rightarrow> Card" where
  "stripId c = c\<lparr>card_id := []\<rparr>"

definition stripEval :: "HandEvaluation \<Rightarrow> HandEvaluation" where
  "stripEval e =
    e\<lparr>bestHighHand := map stripId (bestHighHand e),
      bestLowHand := map_option (map stripId) (bestLowHand e)\<rparr>"

section \<open>Lemmas on the helpers of the evaluator\<close>

subsection \<open>The rank counts\<close>

text \<open>The object \<open>rankCounts\<close> has one property for each rank of the hand, holding the
  number of cards of that rank; \<open>Object.entries\<close> permutes them.\<close>

lemma increment_keys:
  "map fst (increment r kvs)
   = (if r \<in> set (map fst kvs) then map fst kvs else map fst kvs @ [r])"
  by (induction kvs) (force+)

lemma increment_distinct:
  "distinct (map fst kvs) \<Longrightarrow> distinct (map fst (increment r kvs))"
  by (simp add: increment_keys)

lemma increment_map_of:
  "map_of (increment r kvs) = (map_of kvs)(r \<mapsto> (case map_of kvs r of None \<Rightarrow> 1 | Some c \<Rightarrow> c + 1))"
  by (induction kvs) (auto simp: fun_eq_iff)

lemma fold_increment_distinct:
  "distinct (map fst acc) \<Longrightarrow> distinct (map fst (fold increment rs acc))"
  by (induction rs arbitrary: acc) (simp_all add: increment_distinct)

lemma fold_increment_map_of:
  "map_of (fold increment rs acc) r =
     (if r \<in> set rs \<or> r \<in> dom (map_of acc)
      then Some (count_list rs r + (case map_of acc r of None \<Rightarrow> 0 | Some c \<Rightarrow> c))
      else None)"
proof (induction rs arbitrary: acc)
  case Nil
  then show ?case by (auto split: option.splits)
next
  case (Cons x xs)
  show ?case
    by (simp add: Cons.IH increment_map_of split: option.splits) (auto simp: dom_def)
qed

lemma countRanks_distinct: "distinct (map fst (countRanks rs))"
  by (simp add: countRanks_def fold_increment_distinct)

lemma countRanks_map_of:
  "map_of (countRanks rs) r = (if r \<in> set rs then Some (count_list rs r) else None)"
  by (simp add: countRanks_def fold_increment_map_of)

lemma countRanks_mem: "((k, c) \<in> set (countRanks rs)) = (k \<in> set rs \<and> c = count_list rs k)"
  using map_of_eq_Some_iff [OF countRanks_distinct, of rs k c]
  by (auto simp: countRanks_map_of split: if_splits)

lemma objectEntries_mset: "mset (objectEntries obj) = mset obj"
  by (simp add: objectEntries_def)

lemma objectEntries_set: "set (objectEntries obj) = set obj"
  by (metis objectEntries_mset set_mset_mset)

lemma objectEntries_distinct:
  "distinct (map fst obj) \<Longrightarrow> distinct (map fst (objectEntries obj))"
  by (metis objectEntries_mset mset_map distinct_count_atmost_1 set_mset_mset)

lemma entries_distinct: "distinct (map fst (entries h))"
  by (simp add: entries_def objectEntries_distinct countRanks_distinct)

lemma entries_mem:
  "((k, c) \<in> set (entries h)) = (k \<in> set (map rank h) \<and> c = count_list (map rank h) k)"
  by (simp add: entries_def objectEntries_set countRanks_mem)

lemma entries_snd: "kv \<in> set (entries h) \<Longrightarrow> snd kv = count_list (map rank h) (fst kv)"
  using entries_mem [of "fst kv" "snd kv" h] by simp

lemma entries_counts_mset:
  "mset (map snd (entries h)) = mset (map (count_list (map rank h)) (remdups (map rank h)))"
proof -
  have keys: "mset (map fst (entries h)) = mset (remdups (map rank h))"
  proof (rule set_eq_iff_mset_eq_distinct [THEN iffD1])
    show "distinct (map fst (entries h))" by (rule entries_distinct)
    show "distinct (remdups (map rank h))" by simp
    show "set (map fst (entries h)) = set (remdups (map rank h))"
      using entries_mem [of _ _ h] by (auto simp: image_iff) force
  qed
  have "map snd (entries h) = map (count_list (map rank h)) (map fst (entries h))"
    by (simp add: entries_snd)
  then have "mset (map snd (entries h)) = image_mset (count_list (map rank h)) (mset (map fst (entries h)))"
    by (metis mset_map)
  then show ?thesis using keys by simp
qed

subsection \<open>evaluateHand and getRepeatedRank over the entries\<close>

lemma evaluateHand_alt:
  "evaluateHand h =
    (if card (set (map suit h)) = 1 \<and> checkStraight (map rank h) \<and> isRoyalFlush (map rank h) then RoyalFlush
     else if card (set (map suit h)) = 1 \<and> checkStraight (map rank h) then StraightFlush
     else if counts h = [4, 1] then FourOfAKind
     else if counts h = [3, 2] then FullHouse
     else if card (set (map suit h)) = 1 then Flush
     else if checkStraight (map rank h) then Straight
     else if counts h = [3, 1, 1] then ThreeOfAKind
     else if counts h = [2, 2, 1] then TwoPair
     else if counts h = [2, 1, 1, 1] then OnePair
     else HighCard)"
  by (simp add: evaluateHand_def counts_def entries_def Let_def)

lemma counts_mset: "mset (counts h) = mset (map snd (entries h))"
  by (simp add: counts_def)

lemma counts_set: "set (counts h) = snd ` set (entries h)"
  by (simp add: counts_def)

lemma getRepeatedRank_alt:
  "getRepeatedRank h n =
    (case find (\<lambda>kv. snd kv = n) (entries h) of
       Some kv \<Rightarrow> Inr (fst kv) | None \<Rightarrow> Inl (NoRankWithCount n))"
  by (simp add: getRepeatedRank_def entries_def)

lemma getRepeatedRank_Inr:
  "getRepeatedRank h n = Inr a \<Longrightarrow> a \<in> set (map rank h) \<and> count_list (map rank h) a = n"
proof -
  assume a: "getRepeatedRank h n = Inr a"
  then obtain kv where f: "find (\<lambda>kv. snd kv = n) (entries h) = Some kv" and k: "fst kv = a"
    by (auto simp: getRepeatedRank_alt split: option.splits)
  from f have "kv \<in> set (entries h)" and "snd kv = n"
    by (auto simp: find_Some_iff)
  with k have "(a, n) \<in> set (entries h)"
    by (metis prod.collapse)
  then show ?thesis
    by (simp add: entries_mem)
qed

lemma getRepeatedRank_Inl:
  "getRepeatedRank h n = Inl e \<Longrightarrow> e = NoRankWithCount n \<and> n \<notin> set (counts h)"
  by (auto simp: getRepeatedRank_alt counts_set find_None_iff split: option.splits)

lemma getRepeatedRank_exists:
  assumes "n \<in> set (counts h)"
  shows "\<exists>a. getRepeatedRank h n = Inr a"
proof (cases "getRepeatedRank h n")
  case (Inl e)
  with assms show ?thesis using getRepeatedRank_Inl by blast
next
  case (Inr a)
  then show ?thesis by blast
qed

subsection \<open>The loops compare lexicographically\<close>

text \<open>Where both arrays have at least \<open>n\<close> elements no read is \<open>undefined\<close>, and the loop is the
  lexicographic comparison of the first \<open>n\<close> values.\<close>

lemma compareHighLoop_lexcmp:
  "i \<le> n \<Longrightarrow> n \<le> length v1 \<Longrightarrow> n \<le> length v2 \<Longrightarrow>
   compareHighLoop v1 v2 n i = lexcmp (drop i (take n v1)) (drop i (take n v2))"
proof (induction v1 v2 n i rule: compareHighLoop.induct)
  case (1 v1 v2 n i)
  show ?case
  proof (cases "i < n")
    case False
    with "1.prems" show ?thesis
      by (simp add: compareHighLoop.simps)
  next
    case True
    with "1.prems" have d1: "drop i (take n v1) = v1 ! i # drop (Suc i) (take n v1)"
      and d2: "drop i (take n v2) = v2 ! i # drop (Suc i) (take n v2)"
      by (simp_all add: Cons_nth_drop_Suc [symmetric])
    from True "1.prems" have a1: "at v1 i = Num (v1 ! i)" and a2: "at v2 i = Num (v2 ! i)"
      by (simp_all add: at_def)
    show ?thesis
    proof (cases "v1 ! i = v2 ! i")
      case eq: True
      then have "compareHighLoop v1 v2 n i = compareHighLoop v1 v2 n (Suc i)"
        using True by (subst compareHighLoop.simps) (simp add: a1 a2 js_gt_def)
      also have "\<dots> = lexcmp (drop (Suc i) (take n v1)) (drop (Suc i) (take n v2))"
        using "1.IH" True "1.prems" eq by (simp add: a1 a2 js_gt_def)
      finally show ?thesis by (simp add: d1 d2 eq)
    next
      case False
      then show ?thesis
        using True by (subst compareHighLoop.simps) (auto simp: a1 a2 js_gt_def d1 d2)
    qed
  qed
qed

lemma compareHighLoop_full:
  "length v1 = n \<Longrightarrow> length v2 = n \<Longrightarrow> compareHighLoop v1 v2 n 0 = lexcmp v1 v2"
  using compareHighLoop_lexcmp [of 0 n v1 v2] by simp

lemma lexcmp_refl: "lexcmp xs xs = 0"
  by (induction xs) simp_all

lemma lexcmp_range: "lexcmp xs ys \<in> {-1, 0, 1}"
  by (induction xs ys rule: lexcmp.induct) simp_all

lemma lexcmp_trans:
  "length xs = length ys \<Longrightarrow> length ys = length zs \<Longrightarrow>
   lexcmp xs ys = -1 \<Longrightarrow> lexcmp ys zs = -1 \<Longrightarrow> lexcmp xs zs = -1"
proof (induction xs ys zs rule: list_induct3)
  case Nil
  then show ?case by simp
next
  case (Cons x xs y ys z zs)
  from Cons.prems(1) have xy: "y < x \<or> (x = y \<and> lexcmp xs ys = -1)"
    by (simp split: if_splits)
  from Cons.prems(2) have yz: "z < y \<or> (y = z \<and> lexcmp ys zs = -1)"
    by (simp split: if_splits)
  from xy yz Cons.IH show ?case
    by auto
qed

subsection \<open>What a category says of the counts\<close>

lemma filter_rank_length:
  "length (filter (\<lambda>c. rank c \<noteq> a) h) + count_list (map rank h) a = length h"
  by (induction h) simp_all

lemma filter_rank2_length:
  "a \<noteq> b \<Longrightarrow>
   length (filter (\<lambda>c. rank c \<noteq> a \<and> rank c \<noteq> b) h)
     + count_list (map rank h) a + count_list (map rank h) b = length h"
  by (induction h) simp_all

lemma evaluateHand_shape:
  "evaluateHand h = FourOfAKind \<Longrightarrow> counts h = [4, 1]"
  "evaluateHand h = FullHouse \<Longrightarrow> counts h = [3, 2]"
  "evaluateHand h = ThreeOfAKind \<Longrightarrow> counts h = [3, 1, 1]"
  "evaluateHand h = TwoPair \<Longrightarrow> counts h = [2, 2, 1]"
  "evaluateHand h = OnePair \<Longrightarrow> counts h = [2, 1, 1, 1]"
  by (simp_all add: evaluateHand_alt split: if_splits)

lemma evaluateHand_straight:
  "evaluateHand h = Straight \<or> evaluateHand h = StraightFlush \<Longrightarrow> checkStraight (map rank h)"
  by (auto simp add: evaluateHand_alt split: if_splits)

lemma mathMax_nonempty: "xs \<noteq> [] \<Longrightarrow> \<exists>m. mathMax xs = Num m"
  by (cases xs) (simp_all add: mathMax_def)

lemma getHighCard_Inr: "h \<noteq> [] \<Longrightarrow> \<exists>c. getHighCard h = Inr c"
  by (cases h) (simp_all add: getHighCard_def)

lemma getStraightHighCard_Inr:
  assumes "h \<noteq> []" shows "\<exists>c. getStraightHighCard h = Inr c"
proof (cases "sort (map rankToValue (map rank h)) = [2, 3, 4, 5, 14]")
  case True
  then have "5 \<in> set (sort (map rankToValue (map rank h)))" by simp
  then obtain c where c: "c \<in> set h" "rankToValue (rank c) = 5" by auto
  then have "rank c = R5" by (cases "rank c") simp_all
  with c have "find (\<lambda>card. rank card = R5) h \<noteq> None"
    by (auto simp: find_None_iff)
  with True show ?thesis
    by (auto simp: getStraightHighCard_def)
next
  case False
  with getHighCard_Inr [OF assms] show ?thesis
    by (simp add: getStraightHighCard_def)
qed

lemma count_mset_map_filter:
  "count (mset (map f xs)) v = length (filter (\<lambda>x. f x = v) xs)"
  by (induction xs) simp_all

lemma twoPair_ranks:
  assumes "counts h = [2, 2, 1]"
  shows "\<exists>a b. getTwoPairRanks h = (Some a, Some b) \<and> a \<noteq> b
           \<and> count_list (map rank h) a = 2 \<and> count_list (map rank h) b = 2"
proof -
  let ?ps = "map fst (filter (\<lambda>kv. snd kv = 2) (entries h))"
  let ?pairs = "sort_key (\<lambda>r. - rankToValue r) ?ps"
  have m: "mset (map snd (entries h)) = mset [2, 2, 1]"
    by (metis assms counts_mset)
  have "count (mset (map snd (entries h))) 2 = 2"
    unfolding m by simp
  then have "length (filter (\<lambda>kv. snd kv = 2) (entries h)) = 2"
    by (simp only: count_mset_map_filter)
  then have len: "length ?pairs = 2" by simp
  have "distinct ?ps"
    using entries_distinct [of h] by (simp add: distinct_map_filter)
  then have dist: "distinct ?pairs" by simp
  have mem: "r \<in> set ?pairs \<Longrightarrow> count_list (map rank h) r = 2" for r
    using entries_snd [of _ h] by auto
  from len obtain a b where ab: "?pairs = [a, b]"
    by (metis (no_types, lifting) One_nat_def Suc_1 length_0_conv length_Suc_conv)
  with dist have "a \<noteq> b" by auto
  moreover from ab mem have "count_list (map rank h) a = 2" "count_list (map rank h) b = 2"
    by (metis list.set_intros(1), metis list.set_intros(1,2))
  moreover have "getTwoPairRanks h =
      (if 0 < length ?pairs then Some (?pairs ! 0) else None,
       if 1 < length ?pairs then Some (?pairs ! 1) else None)"
    by (simp only: getTwoPairRanks_def entries_def Let_def)
  then have "getTwoPairRanks h = (Some a, Some b)"
    unfolding ab by simp
  ultimately show ?thesis by blast
qed

subsection \<open>Each branch compares the values of tieKey\<close>

lemma length_sortDesc [simp]: "length (sortDesc xs) = length xs"
  by (simp add: sortDesc_def)

lemma four_facts:
  assumes "length h = 5" "counts h = [4, 1]"
  shows "\<exists>q m. getRepeatedRank h 4 = Inr q
           \<and> mathMax (map (\<lambda>c. rankToValue (rank c)) (filter (\<lambda>c. rank c \<noteq> q) h)) = Num m"
proof -
  from assms(2) have "4 \<in> set (counts h)" by simp
  then obtain q where q: "getRepeatedRank h 4 = Inr q"
    using getRepeatedRank_exists by blast
  then have "count_list (map rank h) q = 4"
    using getRepeatedRank_Inr by blast
  with filter_rank_length [of q h] assms(1) have "length (filter (\<lambda>c. rank c \<noteq> q) h) = 1"
    by simp
  then have "map (\<lambda>c. rankToValue (rank c)) (filter (\<lambda>c. rank c \<noteq> q) h) \<noteq> []"
    by auto
  from mathMax_nonempty [OF this] q show ?thesis by blast
qed

lemma full_facts:
  assumes "counts h = [3, 2]"
  shows "\<exists>t p. getRepeatedRank h 3 = Inr t \<and> getRepeatedRank h 2 = Inr p"
proof -
  from assms have "3 \<in> set (counts h)" "2 \<in> set (counts h)" by simp_all
  then show ?thesis
    using getRepeatedRank_exists by blast
qed

lemma repeated_facts:
  assumes "length h = 5" "n \<in> set (counts h)"
  shows "\<exists>r. getRepeatedRank h n = Inr r \<and> length (filter (\<lambda>c. rank c \<noteq> r) h) = 5 - n"
proof -
  from assms(2) obtain r where r: "getRepeatedRank h n = Inr r"
    using getRepeatedRank_exists by blast
  then have "count_list (map rank h) r = n"
    using getRepeatedRank_Inr by blast
  with filter_rank_length [of r h] assms(1) have "length (filter (\<lambda>c. rank c \<noteq> r) h) = 5 - n"
    by simp
  with r show ?thesis by blast
qed

lemma twoPair_facts:
  assumes "length h = 5" "counts h = [2, 2, 1]"
  shows "\<exists>a b m. getTwoPairRanks h = (Some a, Some b)
           \<and> mathMax (map (\<lambda>c. rankToValue (rank c))
                 (filter (\<lambda>c. rank c \<noteq> a \<and> rank c \<noteq> b) h)) = Num m"
proof -
  from twoPair_ranks [OF assms(2)] obtain a b where
    ab: "getTwoPairRanks h = (Some a, Some b)" "a \<noteq> b"
      "count_list (map rank h) a = 2" "count_list (map rank h) b = 2"
    by blast
  with filter_rank2_length [of a b h] assms(1)
  have "length (filter (\<lambda>c. rank c \<noteq> a \<and> rank c \<noteq> b) h) = 1" by simp
  then have "map (\<lambda>c. rankToValue (rank c)) (filter (\<lambda>c. rank c \<noteq> a \<and> rank c \<noteq> b) h) \<noteq> []"
    by auto
  from mathMax_nonempty [OF this] ab(1) show ?thesis by blast
qed

lemma compareFourOfAKind_key:
  assumes "length h1 = 5" "counts h1 = [4, 1]" "length h2 = 5" "counts h2 = [4, 1]"
  shows "compareFourOfAKind h1 h2 = Inr (lexcmp (tieKey FourOfAKind h1) (tieKey FourOfAKind h2))"
    and "length (tieKey FourOfAKind h1) = 2"
proof -
  from four_facts [OF assms(1,2)] obtain q1 m1 where
    1: "getRepeatedRank h1 4 = Inr q1"
       "mathMax (map (\<lambda>c. rankToValue (rank c)) (filter (\<lambda>c. rank c \<noteq> q1) h1)) = Num m1"
    by blast
  from four_facts [OF assms(3,4)] obtain q2 m2 where
    2: "getRepeatedRank h2 4 = Inr q2"
       "mathMax (map (\<lambda>c. rankToValue (rank c)) (filter (\<lambda>c. rank c \<noteq> q2) h2)) = Num m2"
    by blast
  show "compareFourOfAKind h1 h2 = Inr (lexcmp (tieKey FourOfAKind h1) (tieKey FourOfAKind h2))"
    by (simp add: compareFourOfAKind_def 1 2 numOf_def js_gt_def Let_def)
  show "length (tieKey FourOfAKind h1) = 2"
    by (simp add: 1)
qed

lemma compareFullHouse_key:
  assumes "counts h1 = [3, 2]" "counts h2 = [3, 2]"
  shows "compareFullHouse h1 h2 = Inr (lexcmp (tieKey FullHouse h1) (tieKey FullHouse h2))"
    and "length (tieKey FullHouse h1) = 2"
proof -
  from full_facts [OF assms(1)] obtain t1 p1 where
    1: "getRepeatedRank h1 3 = Inr t1" "getRepeatedRank h1 2 = Inr p1" by blast
  from full_facts [OF assms(2)] obtain t2 p2 where
    2: "getRepeatedRank h2 3 = Inr t2" "getRepeatedRank h2 2 = Inr p2" by blast
  show "compareFullHouse h1 h2 = Inr (lexcmp (tieKey FullHouse h1) (tieKey FullHouse h2))"
    by (simp add: compareFullHouse_def 1 2 Let_def)
  show "length (tieKey FullHouse h1) = 2"
    by (simp add: 1)
qed

lemma compareAllCards_key:
  assumes "length h1 = 5" "length h2 = 5"
  shows "compareAllCards h1 h2
         = Inr (lexcmp (sortDesc (map (\<lambda>c. rankToValue (rank c)) h1))
                       (sortDesc (map (\<lambda>c. rankToValue (rank c)) h2)))"
  using assms by (simp add: compareAllCards_def Let_def compareHighLoop_full)

lemma repeatedKey_compare:
  assumes "length h1 = 5" "n \<in> set (counts h1)" "length h2 = 5" "n \<in> set (counts h2)"
    and r1: "getRepeatedRank h1 n = Inr r1" and r2: "getRepeatedRank h2 n = Inr r2"
  shows "(let val1 = rankToValue r1; val2 = rankToValue r2
          in if val1 > val2 then Inr (-1)
             else if val1 < val2 then Inr 1
             else
              (let kickers1 = sortDesc (map (\<lambda>c. rankToValue (rank c))
                                            (filter (\<lambda>c. rank c \<noteq> r1) h1));
                   kickers2 = sortDesc (map (\<lambda>c. rankToValue (rank c))
                                            (filter (\<lambda>c. rank c \<noteq> r2) h2))
               in Inr (compareHighLoop kickers1 kickers2 (length kickers1) 0)))
         = (Inr (lexcmp (repeatedKey h1 n) (repeatedKey h2 n)) :: error + int)"
    and "length (repeatedKey h1 n) = 6 - n"
proof -
  from repeated_facts [OF assms(1,2)] r1 have l1: "length (filter (\<lambda>c. rank c \<noteq> r1) h1) = 5 - n"
    by simp
  from repeated_facts [OF assms(3,4)] r2 have l2: "length (filter (\<lambda>c. rank c \<noteq> r2) h2) = 5 - n"
    by simp
  have "n \<le> 5"
    using getRepeatedRank_Inr [OF r1] count_le_length [of "map rank h1" r1] assms(1) by simp
  then show "length (repeatedKey h1 n) = 6 - n"
    by (simp add: repeatedKey_def r1 l1)
  show "(let val1 = rankToValue r1; val2 = rankToValue r2
          in if val1 > val2 then Inr (-1)
             else if val1 < val2 then Inr 1
             else
              (let kickers1 = sortDesc (map (\<lambda>c. rankToValue (rank c))
                                            (filter (\<lambda>c. rank c \<noteq> r1) h1));
                   kickers2 = sortDesc (map (\<lambda>c. rankToValue (rank c))
                                            (filter (\<lambda>c. rank c \<noteq> r2) h2))
               in Inr (compareHighLoop kickers1 kickers2 (length kickers1) 0)))
         = (Inr (lexcmp (repeatedKey h1 n) (repeatedKey h2 n)) :: error + int)"
    by (simp add: Let_def repeatedKey_def r1 r2 compareHighLoop_full l1 l2)
qed

lemma compareThreeOfAKind_key:
  assumes "length h1 = 5" "counts h1 = [3, 1, 1]" "length h2 = 5" "counts h2 = [3, 1, 1]"
  shows "compareThreeOfAKind h1 h2
         = Inr (lexcmp (tieKey ThreeOfAKind h1) (tieKey ThreeOfAKind h2))"
    and "length (tieKey ThreeOfAKind h1) = 3"
proof -
  from assms have m: "3 \<in> set (counts h1)" "3 \<in> set (counts h2)" by simp_all
  from m obtain r1 r2 where r: "getRepeatedRank h1 3 = Inr r1" "getRepeatedRank h2 3 = Inr r2"
    using getRepeatedRank_exists by blast
  from repeatedKey_compare [OF assms(1) m(1) assms(3) m(2) r]
  show "compareThreeOfAKind h1 h2
         = Inr (lexcmp (tieKey ThreeOfAKind h1) (tieKey ThreeOfAKind h2))"
    and "length (tieKey ThreeOfAKind h1) = 3"
    by (simp_all add: compareThreeOfAKind_def r)
qed

lemma compareOnePair_key:
  assumes "length h1 = 5" "counts h1 = [2, 1, 1, 1]" "length h2 = 5" "counts h2 = [2, 1, 1, 1]"
  shows "compareOnePair h1 h2 = Inr (lexcmp (tieKey OnePair h1) (tieKey OnePair h2))"
    and "length (tieKey OnePair h1) = 4"
proof -
  from assms have m: "2 \<in> set (counts h1)" "2 \<in> set (counts h2)" by simp_all
  from m obtain r1 r2 where r: "getRepeatedRank h1 2 = Inr r1" "getRepeatedRank h2 2 = Inr r2"
    using getRepeatedRank_exists by blast
  from repeatedKey_compare [OF assms(1) m(1) assms(3) m(2) r]
  show "compareOnePair h1 h2 = Inr (lexcmp (tieKey OnePair h1) (tieKey OnePair h2))"
    and "length (tieKey OnePair h1) = 4"
    by (simp_all add: compareOnePair_def r)
qed

lemma compareTwoPair_key:
  assumes "length h1 = 5" "counts h1 = [2, 2, 1]" "length h2 = 5" "counts h2 = [2, 2, 1]"
  shows "compareTwoPair h1 h2 = Inr (lexcmp (tieKey TwoPair h1) (tieKey TwoPair h2))"
    and "length (tieKey TwoPair h1) = 3"
proof -
  from twoPair_facts [OF assms(1,2)] obtain a1 b1 m1 where
    1: "getTwoPairRanks h1 = (Some a1, Some b1)"
       "mathMax (map (\<lambda>c. rankToValue (rank c))
          (filter (\<lambda>c. rank c \<noteq> a1 \<and> rank c \<noteq> b1) h1)) = Num m1"
    by blast
  from twoPair_facts [OF assms(3,4)] obtain a2 b2 m2 where
    2: "getTwoPairRanks h2 = (Some a2, Some b2)"
       "mathMax (map (\<lambda>c. rankToValue (rank c))
          (filter (\<lambda>c. rank c \<noteq> a2 \<and> rank c \<noteq> b2) h2)) = Num m2"
    by blast
  show "compareTwoPair h1 h2 = Inr (lexcmp (tieKey TwoPair h1) (tieKey TwoPair h2))"
    by (simp add: compareTwoPair_def 1 2 numOf_def js_gt_def Let_def rankToValueOpt_def)
  show "length (tieKey TwoPair h1) = 3"
    by (simp add: 1)
qed

lemma compareStraight_key:
  assumes "h1 \<noteq> []" "h2 \<noteq> []"
  shows "compareStraight h1 h2 = Inr (lexcmp [straightValue h1] [straightValue h2])"
proof -
  from getStraightHighCard_Inr [OF assms(1)] obtain c1 where 1: "getStraightHighCard h1 = Inr c1"
    by blast
  from getStraightHighCard_Inr [OF assms(2)] obtain c2 where 2: "getStraightHighCard h2 = Inr c2"
    by blast
  show ?thesis
    by (simp add: compareStraight_def straightValue_def 1 2 Let_def)
qed

lemma compareHighHands_key:
  assumes "length h1 = 5" "evaluateHand h1 = c" "length h2 = 5" "evaluateHand h2 = c"
  shows "compareHighHands h1 h2 c = Inr (lexcmp (tieKey c h1) (tieKey c h2))"
proof (cases c)
  case HighCard
  with assms show ?thesis by (simp add: compareAllCards_key)
next
  case OnePair
  with assms show ?thesis by (simp add: compareOnePair_key evaluateHand_shape)
next
  case TwoPair
  with assms show ?thesis by (simp add: compareTwoPair_key evaluateHand_shape)
next
  case ThreeOfAKind
  with assms show ?thesis by (simp add: compareThreeOfAKind_key evaluateHand_shape)
next
  case Straight
  moreover from assms have "h1 \<noteq> []" "h2 \<noteq> []" by auto
  ultimately show ?thesis by (simp add: compareStraight_key)
next
  case Flush
  with assms show ?thesis by (simp add: compareAllCards_key)
next
  case FullHouse
  with assms show ?thesis by (simp add: compareFullHouse_key evaluateHand_shape)
next
  case FourOfAKind
  with assms show ?thesis by (simp add: compareFourOfAKind_key evaluateHand_shape)
next
  case StraightFlush
  moreover from assms have "h1 \<noteq> []" "h2 \<noteq> []" by auto
  ultimately show ?thesis by (simp add: compareStraight_key)
next
  case RoyalFlush
  then show ?thesis by simp
qed

lemma tieKey_length:
  assumes "length h = 5" "evaluateHand h = c"
  shows "length (tieKey c h) = keyLength c"
proof (cases c)
  case OnePair
  with assms show ?thesis using compareOnePair_key(2) [of h h] by (simp add: evaluateHand_shape)
next
  case TwoPair
  with assms show ?thesis using compareTwoPair_key(2) [of h h] by (simp add: evaluateHand_shape)
next
  case ThreeOfAKind
  with assms show ?thesis using compareThreeOfAKind_key(2) [of h h] by (simp add: evaluateHand_shape)
next
  case FullHouse
  with assms show ?thesis using compareFullHouse_key(2) [of h h] by (simp add: evaluateHand_shape)
next
  case FourOfAKind
  with assms show ?thesis using compareFourOfAKind_key(2) [of h h] by (simp add: evaluateHand_shape)
qed (use assms in simp_all)

subsection \<open>Straights and the wheel\<close>

lemma rankToValue_inj: "inj rankToValue"
proof (rule injI)
  fix x y assume "rankToValue x = rankToValue y"
  then show "x = y" by (cases x; cases y) simp_all
qed

lemma rankToValue_range: "2 \<le> rankToValue r \<and> rankToValue r \<le> 14"
  by (cases r) simp_all

lemma sort_eq_iff: "sorted ys \<Longrightarrow> (sort xs = ys) = (mset xs = mset ys)"
  by (metis mset_sort properties_for_sort)

lemma wheel_values_iff:
  assumes "length rs = 5"
  shows "(sort (map rankToValue rs) = [2, 3, 4, 5, 14]) = (set rs = {RA, R2, R3, R4, R5})"
proof
  assume "sort (map rankToValue rs) = [2, 3, 4, 5, 14]"
  then have "set (sort (map rankToValue rs)) = set [2, 3, 4, 5, 14]" by (simp only:)
  then have "rankToValue ` set rs = {2, 3, 4, 5, 14}" by simp
  moreover have "rankToValue ` {RA, R2, R3, R4, R5} = {2, 3, 4, 5, 14}" by auto
  ultimately have "rankToValue ` set rs = rankToValue ` {RA, R2, R3, R4, R5}" by (simp only:)
  then show "set rs = {RA, R2, R3, R4, R5}"
    by (rule inj_image_eq_iff [OF rankToValue_inj, THEN iffD1])
next
  assume s: "set rs = {RA, R2, R3, R4, R5}"
  then have "card (set rs) = length rs" using assms by simp
  then have "distinct rs" by (rule card_distinct)
  then have "distinct (map rankToValue rs)"
    using inj_on_subset [OF rankToValue_inj subset_UNIV, of "set rs"] by (simp add: distinct_map)
  moreover have "set (map rankToValue rs) = set [2, 3, 4, 5, 14]"
    using s by auto
  ultimately have "mset (map rankToValue rs) = mset [2, 3, 4, 5, 14]"
    by (subst set_eq_iff_mset_eq_distinct [symmetric]) simp_all
  then show "sort (map rankToValue rs) = [2, 3, 4, 5, 14]"
    by (subst sort_eq_iff) simp_all
qed

lemma wheel_remap:
  assumes "sort (map (\<lambda>v. if v = 14 then 1 else v) (sort (map rankToValue rs))) = [1, 2, 3, 4, 5]"
  shows "sort (map rankToValue rs) = [2, 3, 4, 5, 14]"
proof -
  let ?f = "\<lambda>v::int. if v = 14 then 1 else v"
  let ?g = "\<lambda>v::int. if v = 1 then 14 else v"
  have "mset (sort (map ?f (sort (map rankToValue rs)))) = mset [1, 2, 3, 4, 5]"
    by (simp only: assms)
  then have m: "image_mset (?f \<circ> rankToValue) (mset rs) = mset [1, 2, 3, 4, 5]"
    by (simp add: multiset.map_comp)
  have gf: "?g \<circ> (?f \<circ> rankToValue) = rankToValue"
  proof (rule ext)
    fix r show "(?g \<circ> (?f \<circ> rankToValue)) r = rankToValue r"
      using rankToValue_range [of r] by auto
  qed
  have "image_mset ?g (image_mset (?f \<circ> rankToValue) (mset rs)) = image_mset ?g (mset [1, 2, 3, 4, 5])"
    by (simp only: m)
  then have "image_mset rankToValue (mset rs) = image_mset ?g (mset [1, 2, 3, 4, 5])"
    by (simp only: multiset.map_comp gf)
  then have "mset (map rankToValue rs) = mset [2, 3, 4, 5, 14]"
    by simp
  then show ?thesis
    by (subst sort_eq_iff) simp_all
qed

lemma isConsecutive_five:
  "isConsecutive xs \<Longrightarrow> length xs = 5 \<Longrightarrow>
   \<exists>a. xs = [a, a + 1, a + 2, a + 3, a + 4]"
proof -
  assume c: "isConsecutive xs" and l: "length xs = 5"
  from l obtain a b c' d e where xs: "xs = [a, b, c', d, e]"
    by (auto simp: length_Suc_conv eval_nat_numeral)
  with c have "b = a + 1" "c' = b + 1" "d = c' + 1" "e = d + 1"
    by (auto split: if_splits)
  with xs show ?thesis by auto
qed

lemma getHighCard_value:
  assumes "h \<noteq> []"
  shows "\<exists>c. getHighCard h = Inr c \<and> c \<in> set h
          \<and> rankToValue (rank c) = Max (set (map (\<lambda>c. rankToValue (rank c)) h))"
proof -
  let ?f = "\<lambda>card mx. if rankToValue (rank card) > rankToValue (rank mx) then card else mx"
  have fold_val: "rankToValue (rank (fold ?f cs c)) = fold max (map (\<lambda>c. rankToValue (rank c)) cs) (rankToValue (rank c))
      \<and> fold ?f cs c \<in> set (c # cs)" for cs and c :: Card
    by (induction cs arbitrary: c) (auto simp: max_def)
  from assms obtain c cs where h: "h = c # cs" by (cases h) auto
  have "getHighCard h = Inr (fold ?f cs c)"
    by (simp add: getHighCard_def h)
  moreover have "Max (set (map (\<lambda>c. rankToValue (rank c)) h))
      = fold max (map (\<lambda>c. rankToValue (rank c)) cs) (rankToValue (rank c))"
    unfolding h by (simp only: list.map Max.set_eq_fold)
  then have "rankToValue (rank (fold ?f cs c)) = Max (set (map (\<lambda>c. rankToValue (rank c)) h))"
    using fold_val [of cs c] by simp
  moreover have "fold ?f cs c \<in> set h"
    using fold_val [of cs c] by (simp add: h)
  ultimately show ?thesis by blast
qed

lemma straightValue_wheel:
  assumes "length h = 5" "isWheel h"
  shows "\<exists>c. getStraightHighCard h = Inr c \<and> c \<in> set h \<and> rank c = R5"
proof -
  from assms have w: "sort (map rankToValue (map rank h)) = [2, 3, 4, 5, 14]"
    using wheel_values_iff [of "map rank h"] by (simp add: isWheel_def)
  from assms(2) have "R5 \<in> set (map rank h)" by (simp add: isWheel_def)
  then obtain c where f: "find (\<lambda>card. rank card = R5) h = Some c"
    by (cases "find (\<lambda>card. rank card = R5) h") (auto simp: find_None_iff)
  then have "rank c = R5" "c \<in> set h"
    by (auto simp: find_Some_iff)
  with w f show ?thesis
    by (simp add: getStraightHighCard_def)
qed

lemma straightValue_eq:
  assumes "length h = 5"
  shows "straightValue h = straightHigh h"
proof (cases "isWheel h")
  case True
  with straightValue_wheel [OF assms] show ?thesis
    by (auto simp: straightValue_def straightHigh_def)
next
  case False
  with assms have "sort (map rankToValue (map rank h)) \<noteq> [2, 3, 4, 5, 14]"
    using wheel_values_iff [of "map rank h"] by (simp add: isWheel_def)
  then have "getStraightHighCard h = getHighCard h"
    by (simp add: getStraightHighCard_def)
  moreover from assms have "h \<noteq> []" by auto
  ultimately show ?thesis
    using getHighCard_value [of h] False
    by (auto simp: straightValue_def straightHigh_def)
qed

lemma straight_nonwheel_high:
  assumes "length h = 5" "checkStraight (map rank h)" "\<not> isWheel h"
  shows "6 \<le> straightHigh h"
proof -
  let ?vs = "sort (map rankToValue (map rank h))"
  from assms(1,3) have nw: "?vs \<noteq> [2, 3, 4, 5, 14]"
    using wheel_values_iff [of "map rank h"] by (simp add: isWheel_def)
  have "isConsecutive ?vs"
  proof (rule ccontr)
    assume "\<not> isConsecutive ?vs"
    with assms(2) have
      "sort (map (\<lambda>v. if v = 14 then 1 else v) ?vs) = [1, 2, 3, 4, 5]"
      by (simp add: checkStraight_def Let_def split: if_splits)
    from wheel_remap [OF this] nw show False by simp
  qed
  moreover have "length ?vs = 5" using assms(1) by simp
  ultimately obtain a where a: "?vs = [a, a + 1, a + 2, a + 3, a + 4]"
    using isConsecutive_five by blast
  then have "set ?vs = {a, a + 1, a + 2, a + 3, a + 4}" by simp
  then have s: "set (map (\<lambda>c. rankToValue (rank c)) h) = {a, a + 1, a + 2, a + 3, a + 4}"
    by (simp add: comp_def)
  have "a \<in> set ?vs" unfolding a by simp
  then obtain r where "a = rankToValue r" by auto
  then have "2 \<le> a" using rankToValue_range [of r] by simp
  moreover have "Max (set (map (\<lambda>c. rankToValue (rank c)) h)) = a + 4"
    unfolding s by simp
  ultimately show ?thesis
    using assms(3) by (simp add: straightHigh_def)
qed

subsection \<open>Further properties of the order\<close>

lemma lexcmp_sym: "lexcmp ys xs = - lexcmp xs ys"
  by (induction xs ys rule: lexcmp.induct) (auto simp: Let_def)

lemma lexcmp_zero:
  "length xs = length ys \<Longrightarrow> lexcmp xs ys = 0 \<Longrightarrow> xs = ys"
  by (induction xs ys rule: list_induct2) (auto split: if_splits)

lemma lookupsSucceed_classified:
  assumes "length h = 5" "evaluateHand h = c"
  shows "lookupsSucceed c h"
proof (cases c)
  case OnePair
  with assms have "2 \<in> set (counts h)" by (simp add: evaluateHand_shape)
  with OnePair show ?thesis using getRepeatedRank_exists [of 2 h] by auto
next
  case TwoPair
  with assms have "counts h = [2, 2, 1]" by (simp add: evaluateHand_shape)
  from twoPair_facts [OF assms(1) this] TwoPair show ?thesis
    by (auto simp: mathMax_def)
next
  case ThreeOfAKind
  with assms have "3 \<in> set (counts h)" by (simp add: evaluateHand_shape)
  with ThreeOfAKind show ?thesis using getRepeatedRank_exists [of 3 h] by auto
next
  case FullHouse
  with assms have "counts h = [3, 2]" by (simp add: evaluateHand_shape)
  from full_facts [OF this] FullHouse show ?thesis by auto
next
  case FourOfAKind
  with assms have "counts h = [4, 1]" by (simp add: evaluateHand_shape)
  from four_facts [OF assms(1) this] FourOfAKind show ?thesis
    by (auto simp: mathMax_def)
qed simp_all

subsection \<open>The predicates of the specification and those of the code\<close>

lemma ball_upt_Suc:
  "(\<forall>i\<in>{0 ..< Suc n}. P i) = (P 0 \<and> (\<forall>i\<in>{0 ..< n}. P (Suc i)))"
proof
  assume a: "\<forall>i\<in>{0 ..< Suc n}. P i"
  then show "P 0 \<and> (\<forall>i\<in>{0 ..< n}. P (Suc i))" by auto
next
  assume a: "P 0 \<and> (\<forall>i\<in>{0 ..< n}. P (Suc i))"
  show "\<forall>i\<in>{0 ..< Suc n}. P i"
  proof
    fix i assume "i \<in> {0 ..< Suc n}"
    with a show "P i" by (cases i) auto
  qed
qed

lemma isConsecutive_steps: "isConsecutive vs = stepsByOne vs"
proof (induction vs rule: isConsecutive.induct)
  case (1 a b vs)
  have "stepsByOne (a # b # vs) = (b = a + 1 \<and> stepsByOne (b # vs))"
    unfolding stepsByOne_def by (simp add: ball_upt_Suc)
  with 1 show ?case by auto
qed (simp_all add: stepsByOne_def)

lemma flush_iff:
  assumes "h \<noteq> []"
  shows "(card (set (map suit h)) = 1) = specIsFlush h"
proof
  assume "card (set (map suit h)) = 1"
  then obtain s where s: "set (map suit h) = {s}"
    by (rule card_1_singletonE)
  have "suit c = s" if "c \<in> set h" for c
  proof -
    from that have "suit c \<in> set (map suit h)" by simp
    then show ?thesis unfolding s by (rule singletonD)
  qed
  then show "specIsFlush h" by (simp add: specIsFlush_def)
next
  assume a: "specIsFlush h"
  from assms obtain c where c: "c \<in> set h" by (cases h) auto
  have "set (map suit h) = {suit c}"
  proof (rule set_eqI)
    fix x
    show "(x \<in> set (map suit h)) = (x \<in> {suit c})"
    proof
      assume "x \<in> set (map suit h)"
      then obtain d where "d \<in> set h" "x = suit d" by auto
      with a c show "x \<in> {suit c}" unfolding specIsFlush_def by blast
    next
      assume "x \<in> {suit c}"
      with c show "x \<in> set (map suit h)" by simp
    qed
  qed
  then show "card (set (map suit h)) = 1" by simp
qed

lemma wheel_branch_iff:
  assumes "length rs = 5"
  shows "(14 \<in> set (sort (map rankToValue rs))
          \<and> sort (map (\<lambda>v. if v = 14 then 1 else v) (sort (map rankToValue rs))) = [1, 2, 3, 4, 5])
         = (set (map rankToValue rs) = {14, 2, 3, 4, 5})"
proof
  assume "14 \<in> set (sort (map rankToValue rs))
          \<and> sort (map (\<lambda>v. if v = 14 then 1 else v) (sort (map rankToValue rs))) = [1, 2, 3, 4, 5]"
  then have "sort (map rankToValue rs) = [2, 3, 4, 5, 14]"
    using wheel_remap by blast
  then have "set (sort (map rankToValue rs)) = set [2, 3, 4, 5, 14]" by (simp only:)
  then show "set (map rankToValue rs) = {14, 2, 3, 4, 5}" by auto
next
  assume a: "set (map rankToValue rs) = {14, 2, 3, 4, 5}"
  have "rankToValue ` {RA, R2, R3, R4, R5} = {14, 2, 3, 4, 5}" by auto
  with a have "rankToValue ` set rs = rankToValue ` {RA, R2, R3, R4, R5}" by simp
  then have "set rs = {RA, R2, R3, R4, R5}"
    by (rule inj_image_eq_iff [OF rankToValue_inj, THEN iffD1])
  then have s: "sort (map rankToValue rs) = [2, 3, 4, 5, 14]"
    using wheel_values_iff [OF assms] by simp
  show "14 \<in> set (sort (map rankToValue rs))
          \<and> sort (map (\<lambda>v. if v = 14 then 1 else v) (sort (map rankToValue rs))) = [1, 2, 3, 4, 5]"
    unfolding s by simp
qed

lemma straight_iff:
  assumes "length h = 5"
  shows "checkStraight (map rank h) = specIsStraight h"
proof -
  have v: "map rankToValue (map rank h) = map (\<lambda>c. rankToValue (rank c)) h"
    by (simp add: comp_def)
  have "checkStraight (map rank h)
        = (isConsecutive (sort (map rankToValue (map rank h)))
           \<or> (14 \<in> set (sort (map rankToValue (map rank h)))
               \<and> sort (map (\<lambda>v. if v = 14 then 1 else v) (sort (map rankToValue (map rank h))))
                   = [1, 2, 3, 4, 5]))"
    by (auto simp: checkStraight_def Let_def)
  also have "\<dots> = (stepsByOne (sort (map rankToValue (map rank h)))
                   \<or> set (map rankToValue (map rank h)) = {14, 2, 3, 4, 5})"
    using wheel_branch_iff [of "map rank h"] assms
    by (simp only: isConsecutive_steps length_map)
  finally show ?thesis
    by (simp only: specIsStraight_def v)
qed

lemma royal_iff:
  assumes "length h = 5"
  shows "isRoyalFlush (map rank h) = specIsRoyal h"
proof
  assume "isRoyalFlush (map rank h)"
  then have c: "card (set (map rank h)) = 5" and s: "{RA, RK, RQ, RJ, R10} \<subseteq> set (map rank h)"
    by (auto simp: isRoyalFlush_def split: if_splits)
  have "card {RA, RK, RQ, RJ, R10} = 5" by simp
  with c s have "{RA, RK, RQ, RJ, R10} = set (map rank h)"
    by (intro card_subset_eq) simp_all
  then show "specIsRoyal h" by (simp add: specIsRoyal_def)
next
  assume "specIsRoyal h"
  then have s: "set (map rank h) = {RA, RK, RQ, RJ, R10}" by (simp add: specIsRoyal_def)
  have "card {RA, RK, RQ, RJ, R10} = 5" by simp
  with s have "card (set (map rank h)) = 5" by (simp only:)
  with s show "isRoyalFlush (map rank h)"
    unfolding isRoyalFlush_def by (simp only: ) simp
qed

lemma counts_shape: "counts h = countShape h"
proof -
  have "mset (map snd (entries h)) = mset (map (count_list (map rank h)) (remdups (map rank h)))"
    by (rule entries_counts_mset)
  then have "sort (map snd (entries h)) = sort (map (count_list (map rank h)) (remdups (map rank h)))"
    by (metis mset_sort properties_for_sort sorted_sort)
  then show ?thesis
    by (simp add: counts_def countShape_def)
qed

text \<open>There are four suits, so five cards never have five different suits.\<close>

lemma no_five_suits: "length h = 5 \<Longrightarrow> \<not> distinct (map suit h)"
proof
  assume l: "length h = 5" and d: "distinct (map suit h)"
  have u: "(UNIV :: Suit set) = {Hearts, Diamonds, Clubs, Spades}"
  proof (rule set_eqI)
    fix x :: Suit show "(x \<in> UNIV) = (x \<in> {Hearts, Diamonds, Clubs, Spades})"
      by (cases x) simp_all
  qed
  from d have "card (set (map suit h)) = length (map suit h)" by (rule distinct_card)
  with l have "card (set (map suit h)) = 5" by simp
  moreover have "finite (UNIV :: Suit set)" unfolding u by simp
  then have "card (set (map suit h)) \<le> card (UNIV :: Suit set)"
    by (rule card_mono) (rule subset_UNIV)
  moreover have "card (UNIV :: Suit set) = 4" unfolding u by simp
  ultimately show False by simp
qed

subsection \<open>Where compareHighHands can throw\<close>

lemma compareHighLoop_range: "compareHighLoop v1 v2 n i \<in> {-1, 0, 1}"
proof (induction v1 v2 n i rule: compareHighLoop.induct)
  case (1 v1 v2 n i)
  show ?case
    using "1.IH" by (subst compareHighLoop.simps) auto
qed

lemma compareAllCards_range: "compareAllCards h1 h2 \<in> {Inr (-1), Inr 0, Inr 1}"
  using compareHighLoop_range [of "sortDesc (map (\<lambda>c. rankToValue (rank c)) h1)"
      "sortDesc (map (\<lambda>c. rankToValue (rank c)) h2)" 5 0]
  by (auto simp: compareAllCards_def Let_def)

lemma compareTwoPair_range: "compareTwoPair h1 h2 \<in> {Inr (-1), Inr 0, Inr 1}"
  by (simp add: compareTwoPair_def Let_def)

lemma getStraightHighCard_Inl:
  assumes "getStraightHighCard h = Inl e"
  shows "e = TypeError \<and> h = []"
proof (cases "h = []")
  case True
  with assms show ?thesis
    by (simp add: getStraightHighCard_def getHighCard_def)
next
  case False
  from getStraightHighCard_Inr [OF this] assms show ?thesis by auto
qed

lemma compareStraight_Inl:
  assumes "compareStraight h1 h2 = Inl e"
  shows "e = TypeError \<and> (h1 = [] \<or> h2 = [])"
  using assms getStraightHighCard_Inl [of h1] getStraightHighCard_Inl [of h2]
  by (auto simp: compareStraight_def Let_def split: sum.splits if_splits)

lemma getRepeatedRank_Inl_count:
  assumes "getRepeatedRank h n = Inl e" "0 < n"
  shows "e = NoRankWithCount n \<and> (\<forall>r. count_list (map rank h) r \<noteq> n)"
proof -
  from getRepeatedRank_Inl [OF assms(1)] have e: "e = NoRankWithCount n"
    and n: "n \<notin> set (counts h)" by simp_all
  have "count_list (map rank h) r \<noteq> n" for r
  proof
    assume c: "count_list (map rank h) r = n"
    with assms(2) have "r \<in> set (map rank h)"
      by (metis count_notin less_numeral_extra(3))
    with c have "(r, n) \<in> set (entries h)" by (simp add: entries_mem)
    then have "n \<in> set (counts h)" by (force simp: counts_set)
    with n show False by simp
  qed
  with e show ?thesis by simp
qed

lemma repeated_branches_Inl:
  assumes "c \<in> {FourOfAKind, FullHouse, ThreeOfAKind, OnePair}"
    and "compareHighHands h1 h2 c = Inl e"
  shows "\<exists>n. 0 < n \<and> e = NoRankWithCount n
           \<and> ((\<forall>r. count_list (map rank h1) r \<noteq> n) \<or> (\<forall>r. count_list (map rank h2) r \<noteq> n))"
proof -
  have k: "\<exists>n. 0 < n \<and> e = NoRankWithCount n
           \<and> ((\<forall>r. count_list (map rank h1) r \<noteq> n) \<or> (\<forall>r. count_list (map rank h2) r \<noteq> n))"
    if "getRepeatedRank h1 m = Inl e \<or> getRepeatedRank h2 m = Inl e" "0 < m" for m
    using that getRepeatedRank_Inl_count [of h1 m e] getRepeatedRank_Inl_count [of h2 m e]
    by blast
  from assms(1) consider "c = FourOfAKind" | "c = FullHouse" | "c = ThreeOfAKind" | "c = OnePair"
    by auto
  then show ?thesis
  proof cases
    case 1
    with assms(2) have "getRepeatedRank h1 4 = Inl e \<or> getRepeatedRank h2 4 = Inl e"
      by (auto simp: compareFourOfAKind_def Let_def split: sum.splits if_splits)
    then show ?thesis by (rule k) simp
  next
    case 2
    with assms(2) have "(getRepeatedRank h1 3 = Inl e \<or> getRepeatedRank h2 3 = Inl e)
        \<or> (getRepeatedRank h1 2 = Inl e \<or> getRepeatedRank h2 2 = Inl e)"
      by (auto simp: compareFullHouse_def Let_def split: sum.splits if_splits)
    then show ?thesis using k [of 3] k [of 2] by auto
  next
    case 3
    with assms(2) have "getRepeatedRank h1 3 = Inl e \<or> getRepeatedRank h2 3 = Inl e"
      by (auto simp: compareThreeOfAKind_def Let_def split: sum.splits if_splits)
    then show ?thesis by (rule k) simp
  next
    case 4
    with assms(2) have "getRepeatedRank h1 2 = Inl e \<or> getRepeatedRank h2 2 = Inl e"
      by (auto simp: compareOnePair_def Let_def split: sum.splits if_splits)
    then show ?thesis by (rule k) simp
  qed
qed

subsection \<open>Erasing the ids commutes with the evaluator\<close>

lemma stripId_fields [simp]: "rank (stripId c) = rank c" "suit (stripId c) = suit c"
  by (simp_all add: stripId_def)

lemma face_stripId [simp]: "face (stripId c) = face c"
  by (simp add: face_def)

lemma stripId_face: "stripId c = \<lparr>card_id = [], suit = fst (face c), rank = snd (face c)\<rparr>"
  by (cases c) (simp add: stripId_def face_def)

lemma map_stripId_cong:
  assumes "map face xs = map face ys"
  shows "map stripId xs = map stripId ys"
proof -
  let ?mk = "\<lambda>p. \<lparr>card_id = [], suit = fst p, rank = snd p\<rparr>"
  have e: "map stripId zs = map ?mk (map face zs)" for zs
    by (induction zs) (simp_all add: stripId_face)
  have "map stripId xs = map ?mk (map face xs)" by (rule e)
  also have "\<dots> = map ?mk (map face ys)" by (simp only: assms)
  also have "\<dots> = map stripId ys" by (rule e [symmetric])
  finally show ?thesis .
qed

lemma find_map_list: "find P (map f xs) = map_option f (find (P \<circ> f) xs)"
  by (induction xs) simp_all

lemma product_map:
  "List.product (map f xs) (map g ys) = map (map_prod f g) (List.product xs ys)"
  by (induction xs) (simp_all add: comp_def)

lemma combinations_map:
  "combinations (map f items) k = map (map f) (combinations items k)"
proof (induction items k rule: combinations.induct)
  case (1 items k)
  show ?case
  proof (cases "k \<le> 0 \<or> k > int (length items) \<or> k = int (length items)")
    case True
    then show ?thesis
      by (auto simp: combinations.simps [of items k] combinations.simps [of "map f items" k])
  next
    case False
    then have c: "\<not> k \<le> 0" "\<not> k > int (length items)" "k \<noteq> int (length items)" by auto
    let ?n = "nat (int (length items) - k + 1)"
    have inner: "map (\<lambda>subcombo. (map f items ! i) # subcombo)
                   (combinations (drop (Suc i) (map f items)) (k - 1))
                 = map (map f) (map (\<lambda>subcombo. (items ! i) # subcombo)
                   (combinations (drop (Suc i) items) (k - 1)))"
      if "i \<in> set [0 ..< ?n]" for i
    proof -
      from that c have i: "i < length items" by auto
      have "combinations (drop (Suc i) (map f items)) (k - 1)
            = map (map f) (combinations (drop (Suc i) items) (k - 1))"
        using "1.IH" [OF c that] by (simp add: drop_map)
      with i show ?thesis by (simp add: comp_def)
    qed
    have "combinations (map f items) k
          = concat (map (\<lambda>i. map (\<lambda>subcombo. (map f items ! i) # subcombo)
                                 (combinations (drop (Suc i) (map f items)) (k - 1)))
                      [0 ..< ?n])"
      using c by (simp add: combinations.simps [of "map f items" k])
    also have "\<dots> = concat (map (\<lambda>i. map (map f) (map (\<lambda>subcombo. (items ! i) # subcombo)
                                 (combinations (drop (Suc i) items) (k - 1))))
                      [0 ..< ?n])"
      by (rule arg_cong [where f = concat], rule map_cong [OF refl]) (rule inner)
    also have "\<dots> = map (map f) (combinations items k)"
      using c by (simp add: combinations.simps [of items k] map_concat comp_def)
    finally show ?thesis .
  qed
qed

lemma evaluateHand_strip [simp]: "evaluateHand (map stripId h) = evaluateHand h"
  by (simp add: evaluateHand_def filter_map comp_def)

lemma isQualifyingLow_strip [simp]: "isQualifyingLow (map stripId h) = isQualifyingLow h"
  by (simp add: isQualifyingLow_def filter_map comp_def)

lemma compareLowHands_strip [simp]:
  "compareLowHands (map stripId h1) (map stripId h2) = compareLowHands h1 h2"
  by (simp add: compareLowHands_def filter_map comp_def Let_def)

lemma getRepeatedRank_strip [simp]: "getRepeatedRank (map stripId h) n = getRepeatedRank h n"
  by (simp add: getRepeatedRank_def filter_map comp_def)

lemma getTwoPairRanks_strip [simp]: "getTwoPairRanks (map stripId h) = getTwoPairRanks h"
  by (simp add: getTwoPairRanks_def filter_map comp_def)

lemma getHighCard_strip: "getHighCard (map stripId h) = map_sum id stripId (getHighCard h)"
proof -
  let ?f = "\<lambda>card mx. if rankToValue (rank card) > rankToValue (rank mx) then card else mx"
  have "fold ?f (map stripId cs) (stripId c) = stripId (fold ?f cs c)" for cs and c :: Card
    by (induction cs arbitrary: c) simp_all
  then show ?thesis
    by (cases h) (simp_all add: getHighCard_def)
qed

lemma getStraightHighCard_strip:
  "getStraightHighCard (map stripId h) = map_sum id stripId (getStraightHighCard h)"
  by (simp add: getStraightHighCard_def getHighCard_strip find_map_list comp_def Let_def
      split: option.splits)

lemma compareStraight_strip [simp]:
  "compareStraight (map stripId h1) (map stripId h2) = compareStraight h1 h2"
  by (simp add: compareStraight_def getStraightHighCard_strip comp_def split: sum.splits)

lemma compareFourOfAKind_strip [simp]:
  "compareFourOfAKind (map stripId h1) (map stripId h2) = compareFourOfAKind h1 h2"
  by (simp add: compareFourOfAKind_def filter_map comp_def Let_def split: sum.splits)

lemma compareFullHouse_strip [simp]:
  "compareFullHouse (map stripId h1) (map stripId h2) = compareFullHouse h1 h2"
  by (simp add: compareFullHouse_def filter_map comp_def Let_def split: sum.splits)

lemma compareAllCards_strip [simp]:
  "compareAllCards (map stripId h1) (map stripId h2) = compareAllCards h1 h2"
  by (simp add: compareAllCards_def filter_map comp_def Let_def)

lemma compareThreeOfAKind_strip [simp]:
  "compareThreeOfAKind (map stripId h1) (map stripId h2) = compareThreeOfAKind h1 h2"
  by (simp add: compareThreeOfAKind_def filter_map comp_def Let_def split: sum.splits)

lemma compareTwoPair_strip [simp]:
  "compareTwoPair (map stripId h1) (map stripId h2) = compareTwoPair h1 h2"
  by (simp add: compareTwoPair_def filter_map comp_def Let_def)

lemma compareOnePair_strip [simp]:
  "compareOnePair (map stripId h1) (map stripId h2) = compareOnePair h1 h2"
  by (simp add: compareOnePair_def filter_map comp_def Let_def split: sum.splits)

lemma compareHighHands_strip [simp]:
  "compareHighHands (map stripId h1) (map stripId h2) c = compareHighHands h1 h2 c"
  by (cases c) simp_all

lemma updateHigh_strip:
  "updateHigh (map stripId h) (stripEval best) = map_sum id stripEval (updateHigh h best)"
  by (simp add: updateHigh_def stripEval_def Let_def split: sum.splits)

lemma updateLow_strip:
  "updateLow (map stripId h) (stripEval best) = stripEval (updateLow h best)"
  by (simp add: updateLow_def stripEval_def split: option.splits)

lemma evaluateAll_strip:
  "evaluateAll (map (map_prod (map stripId) (map stripId)) cs) (stripEval best)
   = map_sum id stripEval (evaluateAll cs best)"
proof (induction cs arbitrary: best)
  case Nil
  show ?case by simp
next
  case (Cons x cs)
  obtain holeCombo boardCombo where x: "x = (holeCombo, boardCombo)" by (cases x)
  show ?case
  proof (cases "updateHigh (holeCombo @ boardCombo) best")
    case (Inl e)
    then show ?thesis
      using updateHigh_strip [of "holeCombo @ boardCombo" best] by (simp add: x)
  next
    case (Inr best1)
    then show ?thesis
      using updateHigh_strip [of "holeCombo @ boardCombo" best]
        updateLow_strip [of "holeCombo @ boardCombo" best1] Cons.IH
      by (simp add: x)
  qed
qed

lemma allCombinations_strip:
  "allCombinations (map stripId p) (map stripId b) n
   = map (map_prod (map stripId) (map stripId)) (allCombinations p b n)"
  by (simp add: allCombinations_def combinations_map product_map)

lemma findBestHand_strip:
  "findBestHand (map stripId p) (map stripId b) n = map_sum id stripEval (findBestHand p b n)"
proof -
  have "stripEval \<lparr>bestHighHand = [], bestHighRank = HighCard, bestLowHand = None\<rparr>
        = \<lparr>bestHighHand = [], bestHighRank = HighCard, bestLowHand = None\<rparr>"
    by (simp add: stripEval_def)
  then show ?thesis
    using evaluateAll_strip [of "allCombinations p b n"
        "\<lparr>bestHighHand = [], bestHighRank = HighCard, bestLowHand = None\<rparr>"]
    by (simp add: findBestHand_def allCombinations_strip)
qed

lemma evalFaces_strip [simp]: "evalFaces (stripEval e) = evalFaces e"
  by (cases "bestLowHand e") (simp_all add: evalFaces_def stripEval_def comp_def)

lemma findBestHand_faces:
  "map_sum id evalFaces (findBestHand (map stripId p) (map stripId b) n)
   = map_sum id evalFaces (findBestHand p b n)"
  by (cases "findBestHand p b n") (simp_all add: findBestHand_strip)

lemma evalFaceMultisets_evalFaces:
  "map_sum id evalFaceMultisets x
   = map_sum id (\<lambda>(r, h, l). (r, mset h, map_option mset l)) (map_sum id evalFaces x)"
proof (cases x)
  case (Inl e)
  then show ?thesis by simp
next
  case (Inr ev)
  then show ?thesis
    by (cases "bestLowHand ev") (simp_all add: evalFaceMultisets_def evalFaces_def)
qed

section \<open>Insufficient cards\<close>

lemma combinations_too_many:
  "0 < k \<Longrightarrow> length items < nat k \<Longrightarrow> combinations items k = []"
  by (simp add: combinations.simps)

lemma product_Nil_right: "List.product xs [] = []"
  by (induction xs) simp_all

text \<open>C1, as the code behaves. With one private card under the rule of two private and
  three community cards, \<open>findBestHand\<close> reports no error: it returns the Evaluation with
  an empty best high hand, the category HighCard and no low hand.\<close>

theorem C1_insufficient_counterexample:
  "findBestHand [createCard Spades RA ''x1'']
     [createCard Diamonds RA ''x2'', createCard Clubs RA ''x3'', createCard Spades RK ''x4'',
      createCard Hearts R2 ''x5'', createCard Diamonds R3 ''x6''] 4
   = Inr \<lparr>bestHighHand = [], bestHighRank = HighCard, bestLowHand = None\<rparr>"
  by (simp add: findBestHand_def allCombinations_def combinations_too_many product_Nil_right)

text \<open>C1, amended. Whenever the private and community cards cannot supply a legal split for
  the rule, \<open>findBestHand\<close> returns, without an error, the Evaluation whose best high hand is
  empty, whose category is HighCard and whose low hand is absent.\<close>

theorem C1_insufficient_degenerate:
  assumes "\<not> canSupply holeCards communityCards cardCount"
  shows "findBestHand holeCards communityCards cardCount
         = Inr \<lparr>bestHighHand = [], bestHighRank = HighCard, bestLowHand = None\<rparr>"
proof -
  have hole1: "combinations holeCards 1 = []" if "length holeCards < 1"
    using that by (intro combinations_too_many) simp_all
  have hole2: "combinations holeCards 2 = []" if "length holeCards < 2"
    using that by (intro combinations_too_many) simp_all
  have board3: "combinations communityCards 3 = []" if "length communityCards < 3"
    using that by (intro combinations_too_many) simp_all
  have board4: "combinations communityCards 4 = []" if "length communityCards < 4"
    using that by (intro combinations_too_many) simp_all
  have two_three:
    "List.product (combinations holeCards 2) (combinations communityCards 3) = []"
    if "\<not> (2 \<le> length holeCards \<and> 3 \<le> length communityCards)"
  proof (cases "length holeCards < 2")
    case True
    show ?thesis using hole2 [OF True] by simp
  next
    case False
    with that have "length communityCards < 3" by simp
    then show ?thesis using board3 by (simp add: product_Nil_right)
  qed
  have one_four:
    "List.product (combinations holeCards 1) (combinations communityCards 4) = []"
    if "\<not> (1 \<le> length holeCards \<and> 4 \<le> length communityCards)"
  proof (cases "length holeCards < 1")
    case True
    show ?thesis using hole1 [OF True] by simp
  next
    case False
    with that have "length communityCards < 4" by simp
    then show ?thesis using board4 by (simp add: product_Nil_right)
  qed
  have "allCombinations holeCards communityCards cardCount = []"
  proof (cases "cardCount = 2")
    case True
    with assms show ?thesis
      by (simp add: allCombinations_def canSupply_def two_three one_four)
  next
    case False
    with assms show ?thesis
      by (simp add: allCombinations_def canSupply_def two_three)
  qed
  then show ?thesis
    by (simp add: findBestHand_def)
qed

theorem C1_insufficient_degenerate_witness:
  "\<not> canSupply [createCard Spades RA ''x1''] [createCard Diamonds RA ''x2''] 2
   \<and> findBestHand [createCard Spades RA ''x1''] [createCard Diamonds RA ''x2''] 2
     = Inr \<lparr>bestHighHand = [], bestHighRank = HighCard, bestLowHand = None\<rparr>"
proof -
  have h: "\<not> canSupply [createCard Spades RA ''x1''] [createCard Diamonds RA ''x2''] 2"
    by (simp add: canSupply_def)
  show ?thesis
    using h C1_insufficient_degenerate [OF h] by simp
qed

section \<open>The example of the two-card game\<close>

lemma findBestHand_C2:
  "findBestHand privateC2 communityC2 2 =
     Inr \<lparr>bestHighHand = [createCard Diamonds R7 ''p2'', createCard Spades R3 ''b1'',
                           createCard Spades R4 ''b2'', createCard Spades R5 ''b3'',
                           createCard Spades R6 ''b4''],
          bestHighRank = Straight,
          bestLowHand = Some [createCard Clubs R2 ''p1'', createCard Spades R3 ''b1'',
                              createCard Spades R4 ''b2'', createCard Spades R5 ''b3'',
                              createCard Spades R6 ''b4'']\<rparr>"
  by code_simp

lemma lowDescription_C2:
  "getLowHandDescription privateC2 communityC2 2 = Inr ''65432''"
  by code_simp

text \<open>C2, as the code behaves. For the private cards 2 of clubs and 7 of diamonds and the
  community cards 3, 4, 5, 6 of spades and 9 of hearts in the two-card game, the low hand is
  not rendered as 76542 and the ranks of the best high hand are not 2, 3, 4, 5, 6.\<close>

theorem C2_example_counterexample:
  "getLowHandDescription privateC2 communityC2 2 \<noteq> Inr ''76542''
   \<and> map_sum id (\<lambda>ev. mset (map rank (bestHighHand ev))) (findBestHand privateC2 communityC2 2)
       \<noteq> Inr {#R2, R3, R4, R5, R6#}"
  by (simp add: lowDescription_C2 findBestHand_C2 createCard_def)

text \<open>C2, amended. For the same input both splits are explored (one private with four
  community cards, and two private with three community cards, twenty candidates in all),
  the best high hand is the straight 3-4-5-6-7 made of the 7 of diamonds and the four
  spades, of category Straight, the best low hand is the 2 of clubs with the four spades,
  and the low hand is rendered as the digit string 65432.\<close>

theorem C2_example_amended:
  "(privateC2, take 3 communityC2) \<in> set (allCombinations privateC2 communityC2 2)
   \<and> (take 1 privateC2, take 4 communityC2) \<in> set (allCombinations privateC2 communityC2 2)
   \<and> length (allCombinations privateC2 communityC2 2) = 20
   \<and> map_sum id bestHighRank (findBestHand privateC2 communityC2 2) = Inr Straight
   \<and> map_sum id (\<lambda>ev. map face (bestHighHand ev)) (findBestHand privateC2 communityC2 2)
       = Inr [(Diamonds, R7), (Spades, R3), (Spades, R4), (Spades, R5), (Spades, R6)]
   \<and> map_sum id (\<lambda>ev. map_option (map face) (bestLowHand ev))
        (findBestHand privateC2 communityC2 2)
       = Inr (Some [(Clubs, R2), (Spades, R3), (Spades, R4), (Spades, R5), (Spades, R6)])
   \<and> getLowHandDescription privateC2 communityC2 2 = Inr ''65432''"
proof -
  have "(privateC2, take 3 communityC2) \<in> set (allCombinations privateC2 communityC2 2)"
    by code_simp
  moreover have
    "(take 1 privateC2, take 4 communityC2) \<in> set (allCombinations privateC2 communityC2 2)"
    by code_simp
  moreover have "length (allCombinations privateC2 communityC2 2) = 20"
    by code_simp
  ultimately show ?thesis
    by (simp add: lowDescription_C2 findBestHand_C2 createCard_def face_def)
qed

section \<open>Qualifying low hands\<close>

lemma length_filter_all: "(length (filter P xs) = length xs) = (\<forall>x\<in>set xs. P x)"
  by (metis filter_id_conv length_filter_less less_irrefl_nat filter_True)

lemma isQualifyingLow_iff:
  "length h = 5 \<Longrightarrow>
   isQualifyingLow h
   = ((\<forall>c\<in>set h. rankToLowValue (rank c) \<le> 8) \<and> distinct (map rank h))"
  unfolding isQualifyingLow_def Let_def
  using length_filter_all [of "\<lambda>card. rankToLowValue (rank card) \<le> 8" h]
    card_distinct [of "map rank h"] distinct_card [of "map rank h"]
  by auto

lemma low_value_at_most_8:
  "(rankToLowValue r \<le> 8) = (r \<in> {RA, R2, R3, R4, R5, R6, R7, R8})"
  by (cases r) (simp_all add: rankToLowValue_def)

text \<open>C6. For every well-formed 5-card hand, \<open>isQualifyingLow\<close> is true if and only if
  all five cards have a low value of at most 8, where the Ace counts 1 and every other rank
  its face value (so the ranks allowed are A, 2, 3, 4, 5, 6, 7, 8 and the ranks 9, 10, J, Q,
  K are not), and the five ranks are pairwise distinct; suits play no role.\<close>

theorem C6_isQualifyingLow:
  assumes "wellFormed h"
  shows "isQualifyingLow h
         = ((\<forall>c\<in>set h. rank c \<in> {RA, R2, R3, R4, R5, R6, R7, R8}) \<and> distinct (map rank h))
         \<and> isQualifyingLow h
           = ((\<forall>c\<in>set h. rankToLowValue (rank c) \<le> 8) \<and> distinct (map rank h))
         \<and> map rankToLowValue [RA, R2, R3, R4, R5, R6, R7, R8, R9, R10, RJ, RQ, RK]
           = [1, 2, 3, 4, 5, 6, 7, 8, 9, 10, 11, 12, 13]"
proof -
  from assms have l: "length h = 5" by (simp add: wellFormed_def)
  have low: "isQualifyingLow h
         = ((\<forall>c\<in>set h. rankToLowValue (rank c) \<le> 8) \<and> distinct (map rank h))"
    using l by (rule isQualifyingLow_iff)
  then have "isQualifyingLow h
         = ((\<forall>c\<in>set h. rank c \<in> {RA, R2, R3, R4, R5, R6, R7, R8}) \<and> distinct (map rank h))"
    by (simp only: low_value_at_most_8)
  moreover have "map rankToLowValue [RA, R2, R3, R4, R5, R6, R7, R8, R9, R10, RJ, RQ, RK]
           = [1, 2, 3, 4, 5, 6, 7, 8, 9, 10, 11, 12, 13]"
    by (simp add: rankToLowValue_def)
  ultimately show ?thesis using low by blast
qed

text \<open>The examples: the wheel in mixed suits qualifies; the hand 7, 7, 3, 4, 5 with a
  paired rank does not; the hand A, 2, 3, 4, 9 does not, for its 9; and K, Q, J, 10, 9
  does not.\<close>

theorem C6_isQualifyingLow_witness:
  "wellFormed handWheel \<and> isQualifyingLow handWheel
   \<and> wellFormed pairedSevens \<and> \<not> isQualifyingLow pairedSevens
   \<and> wellFormed aceToFourNine \<and> \<not> isQualifyingLow aceToFourNine
   \<and> wellFormed kingToNine \<and> \<not> isQualifyingLow kingToNine"
proof -
  have w: "wellFormed handWheel" "wellFormed pairedSevens" "wellFormed aceToFourNine"
    "wellFormed kingToNine"
    by (simp_all add: wellFormed_def handWheel_def pairedSevens_def aceToFourNine_def
        kingToNine_def createCard_def)
  have 1: "isQualifyingLow handWheel"
    using C6_isQualifyingLow [OF w(1)] by (simp add: handWheel_def createCard_def)
  have 2: "\<not> isQualifyingLow pairedSevens"
    using C6_isQualifyingLow [OF w(2)] by (simp add: pairedSevens_def createCard_def)
  have 3: "\<not> isQualifyingLow aceToFourNine"
    using C6_isQualifyingLow [OF w(3)] by (simp add: aceToFourNine_def createCard_def)
  have 4: "\<not> isQualifyingLow kingToNine"
    using C6_isQualifyingLow [OF w(4)] by (simp add: kingToNine_def createCard_def)
  from w 1 2 3 4 show ?thesis by blast
qed

section \<open>Comparison of straights\<close>

text \<open>C4. For two well-formed hands that are both Straights or both StraightFlushes,
  \<open>compareHighHands\<close> compares the high-card values of the straights, where the wheel
  A-2-3-4-5 has the card of rank 5 as its high card and the value 5; so the wheel compares
  lower than every other straight, and two straights with the same high-card value compare
  as 0.\<close>

theorem C4_straight_compare:
  assumes "wellFormed h1" "wellFormed h2"
    and "c = Straight \<or> c = StraightFlush"
    and "evaluateHand h1 = c" "evaluateHand h2 = c"
  shows "compareHighHands h1 h2 c
           = Inr (if straightHigh h1 > straightHigh h2 then -1
                  else if straightHigh h1 < straightHigh h2 then 1 else 0)
         \<and> (isWheel h1 \<longrightarrow> map_sum id rank (getStraightHighCard h1) = Inr R5 \<and> straightHigh h1 = 5)
         \<and> (isWheel h1 \<and> \<not> isWheel h2 \<longrightarrow> compareHighHands h1 h2 c = Inr 1)
         \<and> (\<not> isWheel h1 \<and> isWheel h2 \<longrightarrow> compareHighHands h1 h2 c = Inr (-1))
         \<and> (straightHigh h1 = straightHigh h2 \<longrightarrow> compareHighHands h1 h2 c = Inr 0)"
proof -
  from assms have l: "length h1 = 5" "length h2 = 5" by (simp_all add: wellFormed_def)
  then have ne: "h1 \<noteq> []" "h2 \<noteq> []" by auto
  from assms(3-5) have s: "checkStraight (map rank h1)" "checkStraight (map rank h2)"
    using evaluateHand_straight by blast+
  have "compareHighHands h1 h2 c = compareStraight h1 h2"
    using assms(3) by auto
  then have cmp: "compareHighHands h1 h2 c
           = Inr (if straightHigh h1 > straightHigh h2 then -1
                  else if straightHigh h1 < straightHigh h2 then 1 else 0)"
    by (simp add: compareStraight_key [OF ne] straightValue_eq l)
  have wheel: "map_sum id rank (getStraightHighCard h1) = Inr R5 \<and> straightHigh h1 = 5" if "isWheel h1"
    using straightValue_wheel [OF l(1) that] that by (auto simp: straightHigh_def)
  have lo: "compareHighHands h1 h2 c = Inr 1" if "isWheel h1" "\<not> isWheel h2"
    using straight_nonwheel_high [OF l(2) s(2) that(2)] that(1)
    by (simp add: cmp) (simp add: straightHigh_def)
  have hi: "compareHighHands h1 h2 c = Inr (-1)" if "\<not> isWheel h1" "isWheel h2"
    using straight_nonwheel_high [OF l(1) s(1) that(1)] that(2)
    by (simp add: cmp) (simp add: straightHigh_def)
  from cmp wheel lo hi show ?thesis by simp
qed

theorem C4_straight_compare_witness:
  "wellFormed handWheel \<and> wellFormed handSixHigh
   \<and> evaluateHand handWheel = Straight \<and> evaluateHand handSixHigh = Straight
   \<and> isWheel handWheel \<and> \<not> isWheel handSixHigh
   \<and> map_sum id rank (getStraightHighCard handWheel) = Inr R5
   \<and> compareHighHands handWheel handSixHigh Straight = Inr 1"
proof -
  have w: "wellFormed handWheel" "wellFormed handSixHigh"
    by (simp_all add: wellFormed_def handWheel_def handSixHigh_def createCard_def)
  have e: "evaluateHand handWheel = Straight" "evaluateHand handSixHigh = Straight"
    by code_simp+
  have i: "isWheel handWheel" "\<not> isWheel handSixHigh"
    by (auto simp: isWheel_def handWheel_def handSixHigh_def createCard_def)
  have "Straight = Straight \<or> Straight = StraightFlush" by simp
  from C4_straight_compare [OF w this e] w e i show ?thesis
    by blast
qed

section \<open>The order of the comparison\<close>

text \<open>C7. On well-formed hands of one category, \<open>compareHighHands\<close> is a strict weak
  ordering: if A beats B and B beats C then A beats C, and A against A is 0. Moreover A beats
  B exactly when B against A is 1, and ties are transitive.\<close>

theorem C7_compare_order:
  assumes "wellFormed A" "wellFormed B" "wellFormed C"
    and "evaluateHand A = c" "evaluateHand B = c" "evaluateHand C = c"
  shows "(compareHighHands A B c = Inr (-1) \<and> compareHighHands B C c = Inr (-1)
            \<longrightarrow> compareHighHands A C c = Inr (-1))
         \<and> compareHighHands A A c = Inr 0
         \<and> (compareHighHands A B c = Inr (-1)) = (compareHighHands B A c = Inr 1)
         \<and> (compareHighHands A B c = Inr 0 \<and> compareHighHands B C c = Inr 0
            \<longrightarrow> compareHighHands A C c = Inr 0)"
proof -
  from assms have l: "length A = 5" "length B = 5" "length C = 5"
    by (simp_all add: wellFormed_def)
  note k = compareHighHands_key tieKey_length
  have kl: "length (tieKey c A) = length (tieKey c B)" "length (tieKey c B) = length (tieKey c C)"
    using l assms(4-6) by (simp_all add: tieKey_length)
  have ab: "compareHighHands A B c = Inr (lexcmp (tieKey c A) (tieKey c B))"
    and bc: "compareHighHands B C c = Inr (lexcmp (tieKey c B) (tieKey c C))"
    and ac: "compareHighHands A C c = Inr (lexcmp (tieKey c A) (tieKey c C))"
    and aa: "compareHighHands A A c = Inr (lexcmp (tieKey c A) (tieKey c A))"
    and ba: "compareHighHands B A c = Inr (lexcmp (tieKey c B) (tieKey c A))"
    using l assms(4-6) by (simp_all add: compareHighHands_key)
  have 1: "compareHighHands A B c = Inr (-1) \<and> compareHighHands B C c = Inr (-1)
            \<longrightarrow> compareHighHands A C c = Inr (-1)"
    using lexcmp_trans [OF kl] by (simp add: ab bc ac)
  have 2: "compareHighHands A A c = Inr 0"
    by (simp add: aa lexcmp_refl)
  have 3: "(compareHighHands A B c = Inr (-1)) = (compareHighHands B A c = Inr 1)"
    using lexcmp_sym [of "tieKey c A" "tieKey c B"] by (auto simp: ab ba)
  have 4: "compareHighHands A B c = Inr 0 \<and> compareHighHands B C c = Inr 0
            \<longrightarrow> compareHighHands A C c = Inr 0"
    using lexcmp_zero [OF kl(1)] lexcmp_zero [OF kl(2)] by (auto simp: ab bc ac lexcmp_refl)
  from 1 2 3 4 show ?thesis by blast
qed

theorem C7_compare_order_witness:
  "wellFormed pairAcesJack \<and> wellFormed pairAcesTen \<and> wellFormed pairKings
   \<and> evaluateHand pairAcesJack = OnePair \<and> evaluateHand pairAcesTen = OnePair
   \<and> evaluateHand pairKings = OnePair
   \<and> compareHighHands pairAcesJack pairAcesTen OnePair = Inr (-1)
   \<and> compareHighHands pairAcesTen pairKings OnePair = Inr (-1)
   \<and> compareHighHands pairAcesJack pairKings OnePair = Inr (-1)
   \<and> compareHighHands pairAcesJack pairAcesJack OnePair = Inr 0"
proof -
  have w: "wellFormed pairAcesJack" "wellFormed pairAcesTen" "wellFormed pairKings"
    by (simp_all add: wellFormed_def pairAcesJack_def pairAcesTen_def pairKings_def createCard_def)
  have e: "evaluateHand pairAcesJack = OnePair" "evaluateHand pairAcesTen = OnePair"
    "evaluateHand pairKings = OnePair"
    by code_simp+
  have c: "compareHighHands pairAcesJack pairAcesTen OnePair = Inr (-1)"
    "compareHighHands pairAcesTen pairKings OnePair = Inr (-1)"
    by code_simp+
  from C7_compare_order [OF w e] w e c show ?thesis
    by blast
qed

section \<open>No error between hands of one category\<close>

text \<open>C10. For two well-formed hands that \<open>evaluateHand\<close> puts in the same category,
  \<open>compareHighHands\<close> with that category returns \<open>-1\<close>, \<open>0\<close> or \<open>1\<close> and throws
  nothing: the error of \<open>getRepeatedRank\<close> is not reached, and the kickers of the
  FourOfAKind and TwoPair branches are not empty.\<close>

theorem C10_compare_total:
  assumes "wellFormed h1" "wellFormed h2" "evaluateHand h1 = c" "evaluateHand h2 = c"
  shows "compareHighHands h1 h2 c \<in> {Inr (-1), Inr 0, Inr 1}
         \<and> lookupsSucceed c h1 \<and> lookupsSucceed c h2"
proof -
  from assms have l: "length h1 = 5" "length h2 = 5" by (simp_all add: wellFormed_def)
  have "compareHighHands h1 h2 c = Inr (lexcmp (tieKey c h1) (tieKey c h2))"
    using l assms(3,4) by (simp add: compareHighHands_key)
  then have "compareHighHands h1 h2 c \<in> {Inr (-1), Inr 0, Inr 1}"
    using lexcmp_range [of "tieKey c h1" "tieKey c h2"] by auto
  then show ?thesis
    using lookupsSucceed_classified l assms(3,4) by blast
qed

theorem C10_compare_total_witness:
  "wellFormed quadAces \<and> wellFormed quadKings
   \<and> evaluateHand quadAces = FourOfAKind \<and> evaluateHand quadKings = FourOfAKind
   \<and> compareHighHands quadAces quadKings FourOfAKind \<in> {Inr (-1), Inr 0, Inr 1}
   \<and> lookupsSucceed FourOfAKind quadAces \<and> lookupsSucceed FourOfAKind quadKings"
proof -
  have w: "wellFormed quadAces" "wellFormed quadKings"
    by (simp_all add: wellFormed_def quadAces_def quadKings_def createCard_def)
  have e: "evaluateHand quadAces = FourOfAKind" "evaluateHand quadKings = FourOfAKind"
    by code_simp+
  from C10_compare_total [OF w e] w e show ?thesis
    by blast
qed

section \<open>The classifier\<close>

text \<open>C3. For every well-formed 5-card hand, \<open>evaluateHand\<close> returns the category that
  the first-match precedence of the specification chooses, over the predicates isFlush (all
  suits identical), isStraight (the sorted high values step by one, or the values are
  exactly the wheel set 14, 2, 3, 4, 5) and the descending count-shape of the ranks; and
  exactly one category results.\<close>

theorem C3_classify:
  assumes "wellFormed h"
  shows "evaluateHand h = classify h \<and> (\<exists>!c. evaluateHand h = c)"
proof -
  from assms have l: "length h = 5" by (simp add: wellFormed_def)
  then have "h \<noteq> []" by auto
  then have f: "(card (set (map suit h)) = 1) = specIsFlush h"
    by (rule flush_iff)
  have "evaluateHand h = classify h"
    unfolding evaluateHand_alt classify_def
    by (simp only: f straight_iff [OF l] royal_iff [OF l] counts_shape)
  then show ?thesis by simp
qed

theorem C3_classify_witness:
  "wellFormed handNineHighSpades
   \<and> evaluateHand handNineHighSpades = StraightFlush
   \<and> classify handNineHighSpades = StraightFlush"
proof -
  have w: "wellFormed handNineHighSpades"
    by (simp add: wellFormed_def handNineHighSpades_def createCard_def)
  have e: "evaluateHand handNineHighSpades = StraightFlush" by code_simp
  from C3_classify [OF w] w e show ?thesis by simp
qed

section \<open>Malformed hands\<close>

text \<open>C8, as the code behaves. A list of four cards and a list of five cards with repeated
  cards are classified like any hand (StraightFlush, FourOfAKind), and compared like any
  two hands; neither is rejected.\<close>

theorem C8_malformed_counterexample:
  "\<not> wellFormed fourSpades \<and> evaluateHand fourSpades = StraightFlush
   \<and> \<not> wellFormed repeatedAce \<and> evaluateHand repeatedAce = FourOfAKind
   \<and> compareHighHands fourSpades repeatedAce Flush = Inr 1"
proof -
  have "\<not> wellFormed fourSpades" "\<not> wellFormed repeatedAce"
    by (simp_all add: wellFormed_def fourSpades_def repeatedAce_def createCard_def)
  moreover have "evaluateHand fourSpades = StraightFlush" "evaluateHand repeatedAce = FourOfAKind"
    by code_simp+
  moreover have "compareHighHands fourSpades repeatedAce Flush = Inr 1"
    by code_simp
  ultimately show ?thesis by simp
qed

text \<open>C8, amended. Neither operation validates its input. \<open>evaluateHand\<close> has no failure
  path and classifies every list of cards: the empty list is a Straight, any single card a
  StraightFlush. \<open>compareHighHands\<close> rejects no hand for its size or for repeated cards:
  for the categories RoyalFlush, Flush, HighCard and TwoPair it returns \<open>-1\<close>, \<open>0\<close> or \<open>1\<close>
  on all lists of cards, and for the other categories it throws only where a hand is empty
  (Straight and StraightFlush, a TypeError) or where no rank of a hand has the count that
  the branch of the category looks up (the Error of \<open>getRepeatedRank\<close>).\<close>

theorem C8_no_validation:
  "evaluateHand [] = Straight
   \<and> evaluateHand [x] = StraightFlush
   \<and> (c \<in> {RoyalFlush, Flush, HighCard, TwoPair}
        \<longrightarrow> compareHighHands h1 h2 c \<in> {Inr (-1), Inr 0, Inr 1})
   \<and> (compareHighHands h1 h2 c = Inl e \<longrightarrow>
        (e = TypeError \<and> (c = Straight \<or> c = StraightFlush) \<and> (h1 = [] \<or> h2 = []))
        \<or> (\<exists>n. 0 < n \<and> e = NoRankWithCount n
                \<and> c \<in> {FourOfAKind, FullHouse, ThreeOfAKind, OnePair}
                \<and> ((\<forall>r. count_list (map rank h1) r \<noteq> n)
                     \<or> (\<forall>r. count_list (map rank h2) r \<noteq> n))))"
proof -
  have 1: "evaluateHand [] = Straight"
    by (simp add: evaluateHand_def checkStraight_def countRanks_def objectEntries_def)
  have 2: "evaluateHand [x] = StraightFlush"
    by (simp add: evaluateHand_def checkStraight_def isRoyalFlush_def)
  have 3: "compareHighHands h1 h2 c \<in> {Inr (-1), Inr 0, Inr 1}"
    if "c \<in> {RoyalFlush, Flush, HighCard, TwoPair}"
    using that compareAllCards_range [of h1 h2] compareTwoPair_range [of h1 h2] by auto
  have 4: "(e = TypeError \<and> (c = Straight \<or> c = StraightFlush) \<and> (h1 = [] \<or> h2 = []))
        \<or> (\<exists>n. 0 < n \<and> e = NoRankWithCount n
                \<and> c \<in> {FourOfAKind, FullHouse, ThreeOfAKind, OnePair}
                \<and> ((\<forall>r. count_list (map rank h1) r \<noteq> n)
                     \<or> (\<forall>r. count_list (map rank h2) r \<noteq> n)))"
    if err: "compareHighHands h1 h2 c = Inl e"
  proof (cases "c \<in> {RoyalFlush, Flush, HighCard, TwoPair}")
    case True
    from 3 [OF this] err show ?thesis by auto
  next
    case False
    show ?thesis
    proof (cases "c = Straight \<or> c = StraightFlush")
      case True
      with err have "compareStraight h1 h2 = Inl e" by auto
      from compareStraight_Inl [OF this] True show ?thesis by simp
    next
      case nonstraight: False
      with False have r: "c \<in> {FourOfAKind, FullHouse, ThreeOfAKind, OnePair}"
        by (cases c) simp_all
      from repeated_branches_Inl [OF r err] r show ?thesis by blast
    qed
  qed
  from 1 2 3 4 show ?thesis by blast
qed

theorem C8_no_validation_witness:
  "Flush \<in> {RoyalFlush, Flush, HighCard, TwoPair}
   \<and> compareHighHands fourSpades repeatedAce Flush \<in> {Inr (-1), Inr 0, Inr 1}
   \<and> compareHighHands [] fourSpades Straight = Inl TypeError
   \<and> evaluateHand [createCard Hearts R7 ''z''] = StraightFlush"
proof -
  have f: "Flush \<in> {RoyalFlush, Flush, HighCard, TwoPair}" by simp
  have e: "compareHighHands [] fourSpades Straight = Inl TypeError" by code_simp
  from C8_no_validation [of "createCard Hearts R7 ''z''" Flush fourSpades repeatedAce] f e
  show ?thesis by blast
qed

section \<open>The id of a card\<close>

text \<open>C9. The result of \<open>findBestHand\<close> depends only on the suits and ranks of the cards,
  never on their ids: two calls whose private cards and whose community cards agree
  pointwise in suit and rank return Evaluations equal by value, that is the same category,
  the same suits and ranks of the best high hand and the same low hand or absence of one
  (in the same order, hence as multisets too). With the same inputs twice this is the
  determinism of the function.\<close>

theorem C9_identity_irrelevant:
  assumes "map face privateCards = map face privateCards'"
    and "map face communityCards = map face communityCards'"
  shows "map_sum id evalFaces (findBestHand privateCards communityCards cardCount)
         = map_sum id evalFaces (findBestHand privateCards' communityCards' cardCount)
         \<and> map_sum id evalFaceMultisets (findBestHand privateCards communityCards cardCount)
           = map_sum id evalFaceMultisets (findBestHand privateCards' communityCards' cardCount)"
proof -
  have "map_sum id evalFaces (findBestHand privateCards communityCards cardCount)
        = map_sum id evalFaces
            (findBestHand (map stripId privateCards) (map stripId communityCards) cardCount)"
    by (rule findBestHand_faces [symmetric])
  also have "\<dots> = map_sum id evalFaces
            (findBestHand (map stripId privateCards') (map stripId communityCards') cardCount)"
    by (simp only: map_stripId_cong [OF assms(1)] map_stripId_cong [OF assms(2)])
  also have "\<dots> = map_sum id evalFaces (findBestHand privateCards' communityCards' cardCount)"
    by (rule findBestHand_faces)
  finally have "map_sum id evalFaces (findBestHand privateCards communityCards cardCount)
         = map_sum id evalFaces (findBestHand privateCards' communityCards' cardCount)" .
  then show ?thesis
    by (simp only: evalFaceMultisets_evalFaces)
qed

theorem C9_identity_irrelevant_witness:
  "map face privateC2 = map face privateC2other
   \<and> map face communityC2 = map face communityC2other
   \<and> privateC2 \<noteq> privateC2other
   \<and> map_sum id evalFaces (findBestHand privateC2 communityC2 2)
     = map_sum id evalFaces (findBestHand privateC2other communityC2other 2)
   \<and> map_sum id evalFaceMultisets (findBestHand privateC2 communityC2 2)
     = map_sum id evalFaceMultisets (findBestHand privateC2other communityC2other 2)"
proof -
  have p: "map face privateC2 = map face privateC2other"
    by (simp add: privateC2_def privateC2other_def createCard_def face_def)
  have c: "map face communityC2 = map face communityC2other"
    by (simp add: communityC2_def communityC2other_def createCard_def face_def)
  have d: "privateC2 \<noteq> privateC2other"
    by (simp add: privateC2_def privateC2other_def createCard_def)
  from C9_identity_irrelevant [OF p c, of 2] p c d show ?thesis
    by blast
qed

end
